theory Spec2Isabelle
  imports Complex_Main
begin

section \<open>Python values, errors and arrays\<close>

text \<open>
  The solver is Python over numpy arrays of floats. A one-dimensional array is a
  \<open>real list\<close>: float64 arithmetic is idealised as exact real arithmetic, so every
  statement below is about the exact values the code's formulas denote, not about rounding.
  A raised exception is the \<open>Inl\<close> branch of a sum; the asserts of the source carry their
  formatted message.
\<close>

datatype error =
    AssertionError string
  | NameError string
  | IndexError
  | TypeError
  | ValueError
  | AttributeError

definition and_then :: "error + 'a \<Rightarrow> ('a \<Rightarrow> error + 'b) \<Rightarrow> error + 'b" where
  "and_then r f = (case r of Inl e \<Rightarrow> Inl e | Inr x \<Rightarrow> f x)"

text \<open>\<open>xs[i]\<close> and \<open>xs[i] = x\<close> for an index \<open>i \<ge> 0\<close>; out of range raises IndexError.\<close>

definition getitem :: "'a list \<Rightarrow> nat \<Rightarrow> error + 'a" where
  "getitem xs i = (if i < length xs then Inr (xs ! i) else Inl IndexError)"

definition setitem :: "'a list \<Rightarrow> nat \<Rightarrow> 'a \<Rightarrow> error + 'a list" where
  "setitem xs i x = (if i < length xs then Inr (xs[i := x]) else Inl IndexError)"

text \<open>\<open>xs[-i]\<close> and \<open>xs[-i] = x\<close> for a literal negative index (\<open>i \<ge> 1\<close>).\<close>

definition getitem_neg :: "'a list \<Rightarrow> nat \<Rightarrow> error + 'a" where
  "getitem_neg xs i =
     (if 0 < i \<and> i \<le> length xs then Inr (xs ! (length xs - i)) else Inl IndexError)"

definition setitem_neg :: "'a list \<Rightarrow> nat \<Rightarrow> 'a \<Rightarrow> error + 'a list" where
  "setitem_neg xs i x =
     (if 0 < i \<and> i \<le> length xs then Inr (xs[length xs - i := x]) else Inl IndexError)"

text \<open>The slice \<open>xs[a:b]\<close> for \<open>0 \<le> a\<close>, \<open>0 \<le> b\<close>: slicing clamps and never raises.\<close>

definition slice :: "'a list \<Rightarrow> nat \<Rightarrow> nat \<Rightarrow> 'a list" where
  "slice xs a b = take (b - a) (drop a xs)"

text \<open>Python's builtin \<open>max\<close> of a sequence; the empty sequence raises ValueError.\<close>

definition py_max :: "real list \<Rightarrow> error + real" where
  "py_max xs = (case xs of [] \<Rightarrow> Inl ValueError | x # rest \<Rightarrow> Inr (fold max rest x))"

text \<open>\<open>for q in qs: body\<close>, where the body updates the loop's state or raises.\<close>

fun for_loop :: "nat list \<Rightarrow> (nat \<Rightarrow> 's \<Rightarrow> error + 's) \<Rightarrow> 's \<Rightarrow> error + 's" where
  "for_loop [] body s = Inr s"
| "for_loop (q # qs) body s =
     (case body q s of Inl e \<Rightarrow> Inl e | Inr s' \<Rightarrow> for_loop qs body s')"

text \<open>The conversion \<open>%d\<close> of a nonnegative integer.\<close>

fun fmt_d :: "nat \<Rightarrow> string" where
  "fmt_d n =
     (if n < 10 then [char_of (48 + n)]
      else fmt_d (n div 10) @ [char_of (48 + n mod 10)])"

declare fmt_d.simps [simp del]

text \<open>
  The message of the length assertions:
  \<^verbatim>\<open>'input vector v is of length %d (should be %d)' % (len(v), good)\<close>.
\<close>

definition len_msg :: "string \<Rightarrow> nat \<Rightarrow> nat \<Rightarrow> string" where
  "len_msg name n good =
     ''input vector '' @ name @ '' is of length '' @ fmt_d n
       @ '' (should be '' @ fmt_d good @ '')''"

definition no_coarser_prolong :: string where
  "no_coarser_prolong = ''cannot prolong from a mesh coarser than the coarsest mesh''"

definition no_coarser_restrict :: string where
  "no_coarser_restrict = ''cannot restrict to a mesh coarser than the coarsest mesh''"


section \<open>The mesh level of \<^verbatim>\<open>py/meshlevel.py\<close>\<close>

text \<open>
  \<^verbatim>\<open>MeshLevel1D(k=k)\<close> has \<open>m = 2^(k+1)\<close> subintervals and the nodes \<open>0, ..., m\<close>, so a
  vector on the level has \<open>m + 1\<close> entries. The fields are set once by the constructor and
  never assigned again; \<open>mcoarser\<close> is \<open>None\<close> on level 0.
\<close>

record MeshLevel1D =
  k_of :: nat
  m_of :: nat
  mcoarser_of :: "nat option"
  h_of :: real

definition MeshLevel1D :: "nat \<Rightarrow> MeshLevel1D" where
  "MeshLevel1D k =
     \<lparr> k_of = k,
       m_of = 2 ^ (k + 1),
       mcoarser_of = (if k > 0 then Some (2 ^ k) else None),
       h_of = 1 / real (2 ^ (k + 1)) \<rparr>"

definition zeros :: "MeshLevel1D \<Rightarrow> real list" where
  "zeros self = replicate (m_of self + 1) 0"

text \<open>
  \<^verbatim>\<open>l2norm\<close> of this file checks nothing: \<open>u[0]\<close> raises on the empty array only, and
  \<open>u[1:-1]\<close> is whatever lies between the first and the last entry.
\<close>

definition l2norm :: "MeshLevel1D \<Rightarrow> real list \<Rightarrow> error + real" where
  "l2norm self u =
     and_then (getitem u 0) (\<lambda>u0.
     and_then (getitem_neg u 1) (\<lambda>ul.
       Inr (sqrt (h_of self * (0.5 * u0 * u0
                                + sum_list (map (\<lambda>x. x * x) (butlast (tl u)))
                                + 0.5 * ul * ul)))))"

definition prolong :: "MeshLevel1D \<Rightarrow> real list \<Rightarrow> error + real list" where
  "prolong self v =
     (if \<not> k_of self > 0 then Inl (AssertionError no_coarser_prolong)
      else case mcoarser_of self of None \<Rightarrow> Inl TypeError | Some mc \<Rightarrow>
      if length v \<noteq> mc + 1 then Inl (AssertionError (len_msg ''v'' (length v) (mc + 1)))
      else
        and_then (getitem v 1) (\<lambda>v1.
        and_then (setitem (zeros self) 1 (0.5 * v1)) (\<lambda>y.
        and_then (for_loop [1..<mc - 1] (\<lambda>q y.
            and_then (getitem v q) (\<lambda>vq.
            and_then (setitem y (2 * q) vq) (\<lambda>y.
            and_then (getitem v q) (\<lambda>vq.
            and_then (getitem v (q + 1)) (\<lambda>vq1.
              setitem y (2 * q + 1) (0.5 * (vq + vq1))))))) y) (\<lambda>y.
        and_then (getitem v (mc - 1)) (\<lambda>vl.
        and_then (setitem y (m_of self - 2) vl) (\<lambda>y.
        and_then (getitem v (mc - 1)) (\<lambda>vl.
          setitem y (m_of self - 1) (0.5 * vl))))))))"

definition CR :: "MeshLevel1D \<Rightarrow> real list \<Rightarrow> error + real list" where
  "CR self v =
     (if \<not> k_of self > 0 then Inl (AssertionError no_coarser_restrict)
      else if length v \<noteq> m_of self + 1
        then Inl (AssertionError (len_msg ''v'' (length v) (m_of self + 1)))
      else case mcoarser_of self of None \<Rightarrow> Inl TypeError | Some mc \<Rightarrow>
        for_loop [1..<mc] (\<lambda>q y.
            and_then (getitem v (2 * q - 1)) (\<lambda>a.
            and_then (getitem v (2 * q)) (\<lambda>b.
            and_then (getitem v (2 * q + 1)) (\<lambda>c.
              setitem y q (0.5 * a + b + 0.5 * c)))))
          (replicate (mc + 1) 0))"

definition VR0 :: "MeshLevel1D \<Rightarrow> real list \<Rightarrow> error + real list" where
  "VR0 self v =
     (if \<not> k_of self > 0 then Inl (AssertionError no_coarser_restrict)
      else if length v \<noteq> m_of self + 1
        then Inl (AssertionError (len_msg ''v'' (length v) (m_of self + 1)))
      else case mcoarser_of self of None \<Rightarrow> Inl TypeError | Some mc \<Rightarrow>
        for_loop [1..<length (replicate (mc + 1) (0::real)) - 1] (\<lambda>q y.
            and_then (getitem v (2 * q - 1)) (\<lambda>a.
            and_then (getitem v (2 * q + 1)) (\<lambda>c.
            and_then (getitem v (2 * q)) (\<lambda>b.
              setitem y q (0.25 * (a + c) + 0.5 * b)))))
          (replicate (mc + 1) 0))"

definition MR :: "MeshLevel1D \<Rightarrow> real list \<Rightarrow> error + real list" where
  "MR self v =
     (if \<not> k_of self > 0 then Inl (AssertionError no_coarser_restrict)
      else if length v \<noteq> m_of self + 1
        then Inl (AssertionError (len_msg ''v'' (length v) (m_of self + 1)))
      else case mcoarser_of self of None \<Rightarrow> Inl TypeError | Some mc \<Rightarrow>
        and_then (py_max (slice v 0 2)) (\<lambda>a.
        and_then (setitem (replicate (mc + 1) 0) 0 a) (\<lambda>y.
        and_then (for_loop [1..<length y - 1] (\<lambda>q y.
            and_then (py_max (slice v (2 * q - 1) (2 * q + 2))) (\<lambda>a.
              setitem y q a)) y) (\<lambda>y.
        and_then (py_max (drop (length v - 2) v)) (\<lambda>b.
          setitem_neg y 1 b)))))"

text \<open>
  \<^verbatim>\<open>residual(u, f)\<close>. The message of its length assertion formats \<open>len(v)\<close>, and no
  name \<open>v\<close> is bound in the method or the module: when the condition is false, Python
  evaluates the message and raises NameError before any AssertionError is built.
\<close>

definition residual :: "MeshLevel1D \<Rightarrow> real list \<Rightarrow> (real \<Rightarrow> real) \<Rightarrow> error + real list" where
  "residual self u f =
     (if length u \<noteq> m_of self + 1 then Inl (NameError ''v'')
      else
        for_loop [1..<m_of self] (\<lambda>p r.
            let xpm = (real p - 0.5) * h_of self;
                xpp = (real p + 0.5) * h_of self
            in and_then (getitem u p) (\<lambda>up.
               and_then (getitem u (p - 1)) (\<lambda>um.
               and_then (getitem u (p + 1)) (\<lambda>ua.
                 setitem r p ((h_of self / 2) * (f xpm + f xpp)
                              - (1 / h_of self) * (2 * up - um - ua))))))
          (zeros self))"

text \<open>
  \<^verbatim>\<open>r[u < phi + osreps] = np.maximum(r[u < phi + osreps], 0.0)\<close>: the mask is
  taken elementwise; numpy broadcasts a one-entry \<open>phi\<close> and refuses any other length that
  differs from that of \<open>u\<close>.
\<close>

definition osreps :: real where
  "osreps = 1 / 10 ^ 10"

definition inactiveresidual ::
  "MeshLevel1D \<Rightarrow> real list \<Rightarrow> (real \<Rightarrow> real) \<Rightarrow> real list \<Rightarrow> error + real list" where
  "inactiveresidual self u f phi =
     and_then (residual self u f) (\<lambda>r.
       if length phi = length u then
         Inr (map (\<lambda>(ri, ui, pi). if ui < pi + osreps then max ri 0 else ri)
                (zip r (zip u phi)))
       else if length phi = 1 then
         Inr (map (\<lambda>(ri, ui). if ui < hd phi + osreps then max ri 0 else ri) (zip r u))
       else Inl ValueError)"

text \<open>
  The clamp in the words of the specification: the residual entry is replaced by
  \<open>max(r[p], 0)\<close> at the nodes where \<open>u\<close> is within the tolerance \<open>1e-10\<close> of the
  obstacle, \<open>|u[p] - phi[p]| < 1e-10\<close>, and kept elsewhere. It is not taken from the
  code; it is what \<^verbatim>\<open>inactiveresidual\<close> is compared with.
\<close>

definition spec_clamp_within_tolerance :: "real list \<Rightarrow> real list \<Rightarrow> real list \<Rightarrow> real list" where
  "spec_clamp_within_tolerance r u phi =
     map (\<lambda>(ri, ui, pi). if \<bar>ui - pi\<bar> < osreps then max ri 0 else ri) (zip r (zip u phi))"


section \<open>The mesh level of \<^verbatim>\<open>py/1D/meshlevel.py\<close>\<close>

text \<open>
  \<^verbatim>\<open>MeshLevel1D(j=j)\<close> of the second file counts interior nodes: \<open>m = 2^(j+1) - 1\<close>,
  the nodes are \<open>0, ..., m+1\<close>, and a vector on the level has \<open>m + 2\<close> entries. Every
  method that takes a vector checks its length through \<^verbatim>\<open>checklen\<close>.
\<close>

record MeshLevel1D_j =
  j_of :: nat
  mj_of :: nat
  mjcoarser_of :: "nat option"
  hj_of :: real
  WU_of :: nat

definition MeshLevel1D_j :: "nat \<Rightarrow> MeshLevel1D_j" where
  "MeshLevel1D_j j =
     \<lparr> j_of = j,
       mj_of = 2 ^ (j + 1) - 1,
       mjcoarser_of = (if j > 0 then Some (2 ^ j - 1) else None),
       hj_of = 1 / real (2 ^ (j + 1) - 1 + 1),
       WU_of = 0 \<rparr>"

definition checklen :: "MeshLevel1D_j \<Rightarrow> real list \<Rightarrow> bool \<Rightarrow> error + unit" where
  "checklen self v coarser =
     and_then (if coarser
               then (case mjcoarser_of self of None \<Rightarrow> Inl TypeError | Some mc \<Rightarrow> Inr (mc + 2))
               else Inr (mj_of self + 2)) (\<lambda>goodlen.
       if length v = goodlen then Inr ()
       else Inl (AssertionError (''input vector is of length '' @ fmt_d (length v)
                                   @ '' (should be '' @ fmt_d goodlen @ '')'')))"

definition zeros_j :: "MeshLevel1D_j \<Rightarrow> real list" where
  "zeros_j self = replicate (mj_of self + 2) 0"

definition l2norm_j :: "MeshLevel1D_j \<Rightarrow> real list \<Rightarrow> error + real" where
  "l2norm_j self u =
     and_then (checklen self u False) (\<lambda>_.
     and_then (getitem u 0) (\<lambda>u0.
     and_then (getitem_neg u 1) (\<lambda>ul.
       Inr (sqrt (hj_of self * (0.5 * u0 * u0
                                 + sum_list (map (\<lambda>x. x * x) (butlast (tl u)))
                                 + 0.5 * ul * ul))))))"

definition cP :: "MeshLevel1D_j \<Rightarrow> real list \<Rightarrow> error + real list" where
  "cP self v =
     (if \<not> j_of self > 0 then Inl (AssertionError no_coarser_prolong)
      else
        and_then (checklen self v True) (\<lambda>_.
        and_then (getitem v 1) (\<lambda>v1.
        and_then (setitem (zeros_j self) 1 (0.5 * v1)) (\<lambda>y.
        and_then (for_loop [1..<length v - 2] (\<lambda>q y.
            and_then (getitem v q) (\<lambda>vq.
            and_then (setitem y (2 * q) vq) (\<lambda>y.
            and_then (getitem v q) (\<lambda>vq.
            and_then (getitem v (q + 1)) (\<lambda>vq1.
              setitem y (2 * q + 1) (0.5 * (vq + vq1))))))) y) (\<lambda>y.
        and_then (getitem_neg v 2) (\<lambda>vl.
        and_then (setitem_neg y 3 vl) (\<lambda>y.
        and_then (getitem_neg v 2) (\<lambda>vl.
          setitem_neg y 2 (0.5 * vl)))))))))"

definition cR :: "MeshLevel1D_j \<Rightarrow> real list \<Rightarrow> error + real list" where
  "cR self ell =
     (if \<not> j_of self > 0 then Inl (AssertionError no_coarser_restrict)
      else
        and_then (checklen self ell False) (\<lambda>_.
        case mjcoarser_of self of None \<Rightarrow> Inl TypeError | Some mc \<Rightarrow>
          for_loop [1..<mc + 1] (\<lambda>q y.
              and_then (getitem ell (2 * q - 1)) (\<lambda>a.
              and_then (getitem ell (2 * q)) (\<lambda>b.
              and_then (getitem ell (2 * q + 1)) (\<lambda>c.
                setitem y q (0.5 * a + b + 0.5 * c)))))
            (replicate (mc + 2) 0)))"

definition mR :: "MeshLevel1D_j \<Rightarrow> real list \<Rightarrow> error + real list" where
  "mR self v =
     (if \<not> j_of self > 0 then Inl (AssertionError no_coarser_restrict)
      else
        and_then (checklen self v False) (\<lambda>_.
        case mjcoarser_of self of None \<Rightarrow> Inl TypeError | Some mc \<Rightarrow>
          for_loop [1..<mc + 1] (\<lambda>q y.
              and_then (py_max (slice v (2 * q - 1) (2 * q + 2))) (\<lambda>a.
                setitem y q a))
            (replicate (mc + 2) 0)))"


section \<open>numpy arithmetic on arrays\<close>

text \<open>
  \<open>a - b\<close> and \<open>a + b\<close> on one-dimensional arrays are elementwise; numpy broadcasts an
  operand with a single entry and raises ValueError for any other pair of different
  lengths. The in-place \<open>a += b\<close> keeps the shape of \<open>a\<close>, so only \<open>b\<close> may be broadcast.
\<close>

definition np_binop :: "(real \<Rightarrow> real \<Rightarrow> real) \<Rightarrow> real list \<Rightarrow> real list \<Rightarrow> error + real list" where
  "np_binop f xs ys =
     (if length xs = length ys then Inr (map2 f xs ys)
      else if length xs = 1 then Inr (map (f (hd xs)) ys)
      else if length ys = 1 then Inr (map (\<lambda>x. f x (hd ys)) xs)
      else Inl ValueError)"

definition np_iadd :: "real list \<Rightarrow> real list \<Rightarrow> error + real list" where
  "np_iadd xs ys =
     (if length xs = length ys then Inr (map2 (+) xs ys)
      else if length ys = 1 then Inr (map (\<lambda>x. x + hd ys) xs)
      else Inl ValueError)"


section \<open>The FAS cycle engine of \<^verbatim>\<open>fas/py/cycles.py\<close>\<close>

text \<open>
  The engine is written against two collaborators whose modules are not part of the
  sources at hand: the mesh levels \<^verbatim>\<open>meshes[k]\<close> (spacing \<open>h\<close>, node count \<open>m\<close>,
  prolongation \<open>P\<close>, canonical restriction \<open>CR\<close>, full-weighting restriction \<open>Rfw\<close>, norm)
  and the problem \<^verbatim>\<open>prob\<close> (the nonlinear operator \<open>F\<close> and the pointwise relaxation
  \<open>ngspoint\<close>). They are fields of the records below, arbitrary functions that return a
  value or raise; \<open>ngspoint\<close>, which updates \<open>w\<close> in place, returns the updated \<open>w\<close>.
  Arrays are values here: \<^verbatim>\<open>ucoarse = Ru.copy()\<close> is a second name for the same value,
  and the in-place updates of \<open>u\<close> return the new \<open>u\<close>. The iterate and the right-hand side
  are taken to be distinct arrays.
\<close>

record FASMesh =
  fm_h :: real
  fm_m :: nat
  fm_P :: "real list \<Rightarrow> error + real list"
  fm_CR :: "real list \<Rightarrow> error + real list"
  fm_Rfw :: "real list \<Rightarrow> error + real list"
  fm_l2norm :: "real list \<Rightarrow> error + real"

record Problem1D =
  prob_F :: "real \<Rightarrow> real list \<Rightarrow> error + real list"
  prob_ngspoint :: "real \<Rightarrow> real list \<Rightarrow> real list \<Rightarrow> nat \<Rightarrow> int \<Rightarrow> error + real list"

text \<open>
  The object \<^verbatim>\<open>self\<close>. \<open>wu\<close> is the only field the cycles assign. \<open>sweep_log\<close> is not a
  field of the source: it records every call of \<^verbatim>\<open>ngssweep\<close> (level, direction) so that
  the number of sweeps per level can be stated.
\<close>

record FAS =
  meshes :: "FASMesh list"
  prob :: Problem1D
  kcoarse :: nat
  kfine :: nat
  coarse :: int
  down :: int
  up :: int
  niters :: int
  monitorupdate :: bool
  wu :: "real list"
  sweep_log :: "(nat \<times> bool) list"

definition FAS_init ::
  "FASMesh list \<Rightarrow> Problem1D \<Rightarrow> nat \<Rightarrow> nat \<Rightarrow> int \<Rightarrow> int \<Rightarrow> int \<Rightarrow> int \<Rightarrow> bool \<Rightarrow> error + FAS" where
  "FAS_init ms pr kc kf c d u n mon =
     (if \<not> kc < kf then Inl (AssertionError [])
      else Inr \<lparr> meshes = ms, prob = pr, kcoarse = kc, kfine = kf, coarse = c, down = d,
                 up = u, niters = n, monitorupdate = mon,
                 wu = replicate (kf + 1) 0, sweep_log = [] \<rparr>)"

text \<open>\<^verbatim>\<open>printupdatenorm\<close>: the print is not modelled, the call of \<open>l2norm\<close> it makes is.\<close>

definition printupdatenorm :: "FAS \<Rightarrow> nat \<Rightarrow> real list \<Rightarrow> error + unit" where
  "printupdatenorm self k du =
     (if monitorupdate self then
        and_then (getitem (meshes self) (k - 1)) (\<lambda>mc.
        and_then (fm_l2norm mc du) (\<lambda>_. Inr ()))
      else Inr ())"

definition wutotal :: "FAS \<Rightarrow> error + real" where
  "wutotal self =
     for_loop [0..<kfine self + 1] (\<lambda>k tot.
         and_then (getitem (wu self) (kfine self - k)) (\<lambda>w. Inr (tot + w / 2 ^ k)))
       0"

definition ngssweep :: "FAS \<Rightarrow> nat \<Rightarrow> real list \<Rightarrow> real list \<Rightarrow> bool \<Rightarrow> error + real list \<times> FAS" where
  "ngssweep self k w ell forward =
     and_then (getitem (meshes self) k) (\<lambda>mk.
     and_then (for_loop (if forward then [1..<fm_m mk] else rev [1..<fm_m mk]) (\<lambda>p w.
         and_then (getitem (meshes self) k) (\<lambda>mk.
           prob_ngspoint (prob self) (fm_h mk) w ell p (niters self))) w) (\<lambda>w.
       Inr (w, self\<lparr>sweep_log := sweep_log self @ [(k, forward)]\<rparr>)))"

text \<open>\<^verbatim>\<open>self.wu[k] += n\<close>.\<close>

definition wu_iadd :: "FAS \<Rightarrow> nat \<Rightarrow> int \<Rightarrow> error + FAS" where
  "wu_iadd self k n =
     and_then (getitem (wu self) k) (\<lambda>x.
     and_then (setitem (wu self) k (x + real_of_int n)) (\<lambda>wu'.
       Inr (self\<lparr>wu := wu'\<rparr>)))"

text \<open>\<^verbatim>\<open>for q in range(n): self.ngssweep(k, u, ell, forward=forward)\<close>.\<close>

definition ngssweeps ::
  "int \<Rightarrow> FAS \<Rightarrow> nat \<Rightarrow> real list \<Rightarrow> real list \<Rightarrow> bool \<Rightarrow> error + real list \<times> FAS" where
  "ngssweeps n self k u ell forward =
     for_loop [0..<nat n] (\<lambda>q (u, self). ngssweep self k u ell forward) (u, self)"

definition coarsesolve :: "FAS \<Rightarrow> real list \<Rightarrow> real list \<Rightarrow> error + real list \<times> FAS" where
  "coarsesolve self u ell =
     and_then (ngssweeps (coarse self) self (kcoarse self) u ell True) (\<lambda>(u, self).
     and_then (wu_iadd self (kcoarse self) (coarse self)) (\<lambda>self.
       Inr (u, self)))"

fun FAS_vcycle :: "FAS \<Rightarrow> nat \<Rightarrow> real list \<Rightarrow> real list \<Rightarrow> error + real list \<times> FAS" where
  "FAS_vcycle self k u ell =
     (if k = kcoarse self then coarsesolve self u ell
      else if \<not> k > kcoarse self then Inl (AssertionError [])
      else
        and_then (ngssweeps (down self) self k u ell True) (\<lambda>(u, self).
        and_then (wu_iadd self k (down self)) (\<lambda>self.
        and_then (getitem (meshes self) k) (\<lambda>mk.
        and_then (prob_F (prob self) (fm_h mk) u) (\<lambda>Fu.
        and_then (np_binop (-) ell Fu) (\<lambda>rfine.
        and_then (getitem (meshes self) k) (\<lambda>mk.
        and_then (fm_Rfw mk u) (\<lambda>Ru.
        and_then (getitem (meshes self) k) (\<lambda>mk.
        and_then (fm_CR mk rfine) (\<lambda>cr.
        and_then (getitem (meshes self) (k - 1)) (\<lambda>mc.
        and_then (prob_F (prob self) (fm_h mc) Ru) (\<lambda>FRu.
        and_then (np_binop (+) cr FRu) (\<lambda>coarseell.
        and_then (FAS_vcycle self (k - 1) Ru coarseell) (\<lambda>(ucoarse, self).
        and_then (np_binop (-) ucoarse Ru) (\<lambda>du.
        and_then (printupdatenorm self k du) (\<lambda>_.
        and_then (getitem (meshes self) k) (\<lambda>mk.
        and_then (fm_P mk du) (\<lambda>Pdu.
        and_then (np_iadd u Pdu) (\<lambda>u.
        and_then (ngssweeps (up self) self k u ell False) (\<lambda>(u, self).
        and_then (wu_iadd self k (up self)) (\<lambda>self.
          Inr (u, self))))))))))))))))))))))"

declare FAS_vcycle.simps [simp del]


section \<open>The constraint-decomposition V-cycle of \<^verbatim>\<open>py/subsetdecomp.py\<close>\<close>

text \<open>
  \<^verbatim>\<open>vcycle\<close> works on a list of mesh levels with \<open>m + 2\<close> nodes, each carrying the defect
  obstacle \<open>chi\<close> as an attribute (absent until it is assigned). The methods \<open>zeros\<close>,
  \<open>mR\<close> and \<open>cR\<close> it calls are those of \<^verbatim>\<open>py/1D/meshlevel.py\<close>. The prolongation
  is called under the name \<open>P\<close>, the projected sweep \<^verbatim>\<open>pgssweep\<close> and the residual
  update \<^verbatim>\<open>residual\<close> are imported from modules \<open>pgs\<close> and \<open>poisson\<close>: none of the three
  is in the sources at hand, and they are the fields of \<open>Smoother\<close>, arbitrary functions
  that return or raise. \<^verbatim>\<open>pgssweep\<close> updates \<open>v\<close> in place and returns a count; here
  it returns both.
\<close>

record SDLevel =
  mesh :: MeshLevel1D_j
  chi :: "real list option"

record Smoother =
  sd_P :: "MeshLevel1D_j \<Rightarrow> real list \<Rightarrow> error + real list"
  sd_pgssweep ::
    "MeshLevel1D_j \<Rightarrow> real list \<Rightarrow> real list \<Rightarrow> real list \<Rightarrow> bool \<Rightarrow> bool \<Rightarrow> error + real list \<times> int"
  sd_residual :: "MeshLevel1D_j \<Rightarrow> real list \<Rightarrow> real list \<Rightarrow> error + real list"

text \<open>The keyword arguments of \<^verbatim>\<open>vcycle\<close>, passed unchanged to the recursive call.\<close>

record vcycle_kw =
  kw_down :: int
  kw_up :: int
  kw_coarse :: int
  kw_levels :: "int option"
  kw_view :: bool
  kw_symmetric :: bool
  kw_printwarnings :: bool

definition default_kw :: vcycle_kw where
  "default_kw = \<lparr> kw_down = 1, kw_up = 0, kw_coarse = 1, kw_levels = None, kw_view = False,
                   kw_symmetric = False, kw_printwarnings = False \<rparr>"

text \<open>
  \<^verbatim>\<open>_levelreport\<close> and \<^verbatim>\<open>_coarsereport\<close> print; what can fail is \<open>levels - 1\<close> when
  \<open>levels\<close> was left at \<open>None\<close>.
\<close>

definition report :: "vcycle_kw \<Rightarrow> error + unit" where
  "report kw =
     (if kw_view kw then (case kw_levels kw of None \<Rightarrow> Inl TypeError | Some _ \<Rightarrow> Inr ())
      else Inr ())"

definition smoother ::
  "Smoother \<Rightarrow> int \<Rightarrow> MeshLevel1D_j \<Rightarrow> real list \<Rightarrow> real list \<Rightarrow> real list \<Rightarrow> bool \<Rightarrow> bool \<Rightarrow> bool
     \<Rightarrow> error + real list \<times> int" where
  "smoother sm s msh v F phi forward symmetric printwarnings =
     for_loop [0..<nat s] (\<lambda>_ (v, infeas).
         and_then (sd_pgssweep sm msh v F phi forward printwarnings) (\<lambda>(v, n).
           if symmetric then
             and_then (sd_pgssweep sm msh v F phi (\<not> forward) printwarnings) (\<lambda>(v, n').
               Inr (v, infeas + n + n'))
           else Inr (v, infeas + n)))
       (v, 0)"

definition get_chi :: "SDLevel \<Rightarrow> error + real list" where
  "get_chi lv = (case chi lv of None \<Rightarrow> Inl AttributeError | Some c \<Rightarrow> Inr c)"

fun vcycle ::
  "Smoother \<Rightarrow> vcycle_kw \<Rightarrow> nat \<Rightarrow> SDLevel list \<Rightarrow> real list
     \<Rightarrow> error + (real list \<times> int) \<times> SDLevel list" where
  "vcycle sm kw j hierarchy F =
     (if \<not> (kw_down kw \<ge> 1 \<and> kw_up kw \<ge> 0 \<and> kw_coarse kw \<ge> 1) then Inl (AssertionError [])
      else
        and_then (getitem hierarchy j) (\<lambda>lv.
        if length F \<noteq> mj_of (mesh lv) + 2 then Inl (AssertionError [])
        else
          let v = zeros_j (mesh lv) in
          if j = 0 then
            and_then (report kw) (\<lambda>_.
            and_then (get_chi lv) (\<lambda>c.
            and_then (smoother sm (kw_coarse kw) (mesh lv) v F c True (kw_symmetric kw)
                        (kw_printwarnings kw)) (\<lambda>(v, infeas).
              Inr ((v, infeas), hierarchy))))
          else
            and_then (get_chi lv) (\<lambda>c.
            and_then (mR (mesh lv) c) (\<lambda>cc.
            and_then (getitem hierarchy (j - 1)) (\<lambda>lc.
            let hierarchy = hierarchy[j - 1 := lc\<lparr>chi := Some cc\<rparr>] in
            and_then (get_chi lv) (\<lambda>c.
            and_then (sd_P sm (mesh lv) cc) (\<lambda>Pcc.
            and_then (np_binop (-) c Pcc) (\<lambda>phi.
            let phi = (if kw_up kw > 0 then map (\<lambda>x. x * 0.5) phi else phi) in
            and_then (report kw) (\<lambda>_.
            and_then (smoother sm (kw_down kw) (mesh lv) v F phi True (kw_symmetric kw)
                        (kw_printwarnings kw)) (\<lambda>(v, infeas).
            and_then (sd_residual sm (mesh lv) v F) (\<lambda>r.
            and_then (cR (mesh lv) r) (\<lambda>Fcoarse.
            and_then (vcycle sm kw (j - 1) hierarchy Fcoarse) (\<lambda>((vcoarse, ifc), hierarchy).
            and_then (sd_P sm (mesh lv) vcoarse) (\<lambda>Pv.
            and_then (np_iadd v Pv) (\<lambda>v.
            let infeas = infeas + ifc in
            if kw_up kw > 0 then
              and_then (report kw) (\<lambda>_.
              and_then (smoother sm (kw_up kw) (mesh lv) v F phi True (kw_symmetric kw)
                          (kw_printwarnings kw)) (\<lambda>(v, n).
                Inr ((v, infeas + n), hierarchy)))
            else Inr ((v, infeas), hierarchy))))))))))))))))"

declare vcycle.simps [simp del]


section \<open>Closed forms used in the proofs\<close>

text \<open>
  What the loops of the transfer operators compute, entry by entry. \<open>zext\<close> reads a
  coarse vector with its two boundary entries replaced by zero; \<open>interp\<close> is linear
  interpolation of that; \<open>prolong_step\<close> is one pass of the prolongation loop;
  \<open>weighted3\<close> and \<open>max3\<close> are the two restriction stencils; \<open>inner\<close> is the
  discrete inner product \<open>\<Sum>i. x[i] * y[i]\<close>, the pairing of a functional with a vector.
\<close>

definition zext :: "nat \<Rightarrow> real list \<Rightarrow> nat \<Rightarrow> real" where
  "zext mc v q = (if q = 0 \<or> q = mc then 0 else v ! q)"

definition interp :: "nat \<Rightarrow> real list \<Rightarrow> nat \<Rightarrow> real" where
  "interp mc v p =
     (if even p then zext mc v (p div 2)
      else 0.5 * (zext mc v (p div 2) + zext mc v (p div 2 + 1)))"

definition prolong_step :: "real list \<Rightarrow> nat \<Rightarrow> real list \<Rightarrow> real list" where
  "prolong_step v q y = y[2 * q := v ! q, Suc (2 * q) := 0.5 * (v ! q + v ! (q + 1))]"

definition weighted3 :: "real list \<Rightarrow> nat \<Rightarrow> real" where
  "weighted3 v q = 0.5 * v ! (2 * q - 1) + v ! (2 * q) + 0.5 * v ! (2 * q + 1)"

definition max3 :: "real list \<Rightarrow> nat \<Rightarrow> real" where
  "max3 v q = max (v ! (2 * q - 1)) (max (v ! (2 * q)) (v ! (2 * q + 1)))"

definition inner :: "real list \<Rightarrow> real list \<Rightarrow> real" where
  "inner xs ys = sum_list (map2 (*) xs ys)"

text \<open>The entry the loop of \<^verbatim>\<open>residual\<close> stores at an interior node \<open>p\<close>.\<close>

definition stencil :: "MeshLevel1D \<Rightarrow> real list \<Rightarrow> (real \<Rightarrow> real) \<Rightarrow> nat \<Rightarrow> real" where
  "stencil self u f p =
     (h_of self / 2) * (f ((real p - 0.5) * h_of self) + f ((real p + 0.5) * h_of self))
       - (1 / h_of self) * (2 * u ! p - u ! (p - 1) - u ! (p + 1))"


section \<open>Bookkeeping for the FAS cycle\<close>

text \<open>
  \<open>sweeps_at\<close> counts the logged sweeps of a level. \<open>only_counters s s'\<close> says that
  \<open>s'\<close> is \<open>s\<close> up to the work-unit array and the log. \<open>wu_gain\<close> and \<open>sweep_gain\<close> are
  what one V-cycle started on level \<open>k\<close> adds to \<open>wu[j]\<close> and to the number of sweeps of
  level \<open>j\<close>.
\<close>

definition sweeps_at :: "FAS \<Rightarrow> nat \<Rightarrow> nat" where
  "sweeps_at self k = length (filter (\<lambda>e. fst e = k) (sweep_log self))"

definition only_counters :: "FAS \<Rightarrow> FAS \<Rightarrow> bool" where
  "only_counters s s' \<longleftrightarrow> s'\<lparr>wu := wu s, sweep_log := sweep_log s\<rparr> = s"

definition wu_gain :: "FAS \<Rightarrow> nat \<Rightarrow> nat \<Rightarrow> real" where
  "wu_gain self k j =
     (if j = kcoarse self then real_of_int (coarse self)
      else if kcoarse self < j \<and> j \<le> k then real_of_int (down self) + real_of_int (up self)
      else 0)"

definition sweep_gain :: "FAS \<Rightarrow> nat \<Rightarrow> nat \<Rightarrow> nat" where
  "sweep_gain self k j =
     (if j = kcoarse self then nat (coarse self)
      else if kcoarse self < j \<and> j \<le> k then nat (down self) + nat (up self)
      else 0)"

section \<open>Well-formed collaborators\<close>

text \<open>
  When do the cycles return rather than raise? \<open>levels_ok self n\<close> says that the FAS
  engine has a mesh and a work-unit entry for every level up to \<open>kfine\<close>, and that the
  collaborators return arrays of the right lengths, \<open>n k\<close> being the length of the vectors
  of level \<open>k\<close>: \<open>F\<close> and \<open>ngspoint\<close> (at the interior nodes) keep the length, \<open>Rfw\<close> and
  \<open>CR\<close> map level \<open>k\<close> to level \<open>k - 1\<close>, \<open>P\<close> maps level \<open>k - 1\<close> to level \<open>k\<close>.
  \<open>cycle_ok sm kw hierarchy\<close> says the same of the constraint decomposition: the sweep
  counts pass the assertion, \<open>levels\<close> is given when \<open>view\<close> is set, the projected sweep
  and the residual keep the length \<open>m + 2\<close> of their level, every level above the first
  is a \<^verbatim>\<open>MeshLevel1D(j)\<close> with \<open>j > 0\<close> whose coarser neighbour has the matching
  length, and \<open>P\<close> maps the coarser level to it.
\<close>

definition levels_ok :: "FAS \<Rightarrow> (nat \<Rightarrow> nat) \<Rightarrow> bool" where
  "levels_ok self n \<longleftrightarrow>
     kfine self < length (meshes self) \<and> length (wu self) = kfine self + 1 \<and>
     (\<forall>k\<le>kfine self.
        (\<forall>u. length u = n k \<longrightarrow>
           (\<exists>y. prob_F (prob self) (fm_h (meshes self ! k)) u = Inr y \<and> length y = n k))
      \<and> (\<forall>w ell p. length w = n k \<and> length ell = n k \<and> 1 \<le> p \<and> p < fm_m (meshes self ! k) \<longrightarrow>
           (\<exists>w'. prob_ngspoint (prob self) (fm_h (meshes self ! k)) w ell p (niters self) = Inr w'
                \<and> length w' = n k))
      \<and> (\<forall>d. \<exists>x. fm_l2norm (meshes self ! k) d = Inr x)
      \<and> (0 < k \<longrightarrow>
           (\<forall>u. length u = n k \<longrightarrow>
              (\<exists>y. fm_Rfw (meshes self ! k) u = Inr y \<and> length y = n (k - 1)))
         \<and> (\<forall>r. length r = n k \<longrightarrow>
              (\<exists>y. fm_CR (meshes self ! k) r = Inr y \<and> length y = n (k - 1)))
         \<and> (\<forall>d. length d = n (k - 1) \<longrightarrow>
              (\<exists>y. fm_P (meshes self ! k) d = Inr y \<and> length y = n k))))"



section \<open>An instance of the collaborators\<close>

text \<open>
  To run the two engines on concrete input, the collaborators are instantiated with the
  linear problem \<open>-u'' = g\<close>: \<open>poisson_F\<close> is its operator and \<open>poisson_ngspoint\<close> the exact
  pointwise solve; the FAS mesh levels take their transfer operators from
  \<^verbatim>\<open>py/meshlevel.py\<close> (\<open>prolong\<close>, \<open>CR\<close>, \<open>VR0\<close>). For the constraint decomposition,
  \<open>example_pgssweep\<close> is a projected Gauss-Seidel sweep of the same problem (it never
  reports an infeasible node), \<open>example_residual\<close> the residual update, and \<open>P\<close> is
  \<^verbatim>\<open>cP\<close>. \<open>observe\<close> projects a result of the FAS cycle to the iterate, the work units
  and the log. These definitions are examples; no statement about the engines depends
  on them.
\<close>

definition poisson_F :: "real \<Rightarrow> real list \<Rightarrow> error + real list" where
  "poisson_F h u =
     Inr (map (\<lambda>p. if 1 \<le> p \<and> p + 1 < length u
                    then (1 / h) * (2 * u ! p - u ! (p - 1) - u ! (p + 1)) else 0)
            [0..<length u])"

definition poisson_ngspoint :: "real \<Rightarrow> real list \<Rightarrow> real list \<Rightarrow> nat \<Rightarrow> int \<Rightarrow> error + real list" where
  "poisson_ngspoint h w ell p n =
     (if 1 \<le> p \<and> p + 1 < length w \<and> p < length ell
      then Inr (w[p := (h * ell ! p + w ! (p - 1) + w ! (p + 1)) / 2])
      else Inl IndexError)"

definition example_mesh :: "nat \<Rightarrow> FASMesh" where
  "example_mesh k =
     \<lparr> fm_h = h_of (MeshLevel1D k), fm_m = m_of (MeshLevel1D k),
       fm_P = prolong (MeshLevel1D k), fm_CR = CR (MeshLevel1D k),
       fm_Rfw = VR0 (MeshLevel1D k),
       fm_l2norm = (\<lambda>v. Inr (fold max (map abs v) 0)) \<rparr>"

definition example_prob :: Problem1D where
  "example_prob = \<lparr> prob_F = poisson_F, prob_ngspoint = poisson_ngspoint \<rparr>"

definition example_FAS :: FAS where
  "example_FAS =
     \<lparr> meshes = [example_mesh 0, example_mesh 1], prob = example_prob, kcoarse = 0, kfine = 1,
       coarse = 1, down = 1, up = 0, niters = 2, monitorupdate = False,
       wu = [0, 0], sweep_log = [] \<rparr>"

definition observe :: "error + real list \<times> FAS \<Rightarrow> error + real list \<times> real list \<times> (nat \<times> bool) list" where
  "observe r = (case r of Inl e \<Rightarrow> Inl e | Inr (u, s) \<Rightarrow> Inr (u, wu s, sweep_log s))"

definition pgs_point :: "MeshLevel1D_j \<Rightarrow> real list \<Rightarrow> real list \<Rightarrow> nat \<Rightarrow> real list \<Rightarrow> real list" where
  "pgs_point msh F phi p v =
     v[p := max (phi ! p) ((hj_of msh * F ! p + v ! (p - 1) + v ! (p + 1)) / 2)]"

definition example_pgssweep ::
  "MeshLevel1D_j \<Rightarrow> real list \<Rightarrow> real list \<Rightarrow> real list \<Rightarrow> bool \<Rightarrow> bool \<Rightarrow> error + real list \<times> int" where
  "example_pgssweep msh v F phi forward printwarnings =
     (if length v = mj_of msh + 2 \<and> length F = mj_of msh + 2 \<and> length phi = mj_of msh + 2
      then Inr (fold (pgs_point msh F phi)
                  (if forward then [1..<mj_of msh + 1] else rev [1..<mj_of msh + 1]) v, 0)
      else Inl IndexError)"

definition example_residual :: "MeshLevel1D_j \<Rightarrow> real list \<Rightarrow> real list \<Rightarrow> error + real list" where
  "example_residual msh v F =
     (if length v = mj_of msh + 2 \<and> length F = mj_of msh + 2
      then Inr (map (\<lambda>p. if 1 \<le> p \<and> p \<le> mj_of msh
                          then F ! p - (1 / hj_of msh) * (2 * v ! p - v ! (p - 1) - v ! (p + 1))
                          else 0) [0..<mj_of msh + 2])
      else Inl IndexError)"

definition example_smoother :: Smoother where
  "example_smoother =
     \<lparr> sd_P = cP, sd_pgssweep = example_pgssweep, sd_residual = example_residual \<rparr>"

definition example_hierarchy :: "SDLevel list" where
  "example_hierarchy =
     [\<lparr> mesh = MeshLevel1D_j 0, chi = None \<rparr>,
      \<lparr> mesh = MeshLevel1D_j 1, chi = Some [0, - 1, - 3, - 2, 0] \<rparr>]"

section \<open>Basic facts\<close>

lemma and_then_Inr [simp]: "and_then (Inr x) f = f x"
  by (simp add: and_then_def)

lemma and_then_Inl [simp]: "and_then (Inl e) f = Inl e"
  by (simp add: and_then_def)

lemma and_then_eq_Inr: "and_then r f = Inr y \<longleftrightarrow> (\<exists>x. r = Inr x \<and> f x = Inr y)"
  by (cases r) simp_all

lemma getitem_in [simp]: "i < length xs \<Longrightarrow> getitem xs i = Inr (xs ! i)"
  by (simp add: getitem_def)

lemma setitem_in [simp]: "i < length xs \<Longrightarrow> setitem xs i x = Inr (xs[i := x])"
  by (simp add: setitem_def)

lemma for_loop_fold:
  assumes "\<And>q s. q \<in> set qs \<Longrightarrow> I s \<Longrightarrow> body q s = Inr (g q s) \<and> I (g q s)"
    and "I s"
  shows "for_loop qs body s = Inr (fold g qs s) \<and> I (fold g qs s)"
  using assms
proof (induction qs arbitrary: s)
  case Nil
  then show ?case by simp
next
  case (Cons q qs)
  have step: "body q s = Inr (g q s)" "I (g q s)"
    using Cons.prems(1)[of q s] Cons.prems(2) by simp_all
  have "for_loop qs body (g q s) = Inr (fold g qs (g q s)) \<and> I (fold g qs (g q s))"
    by (rule Cons.IH) (use Cons.prems(1) step(2) in auto)
  with step show ?case by simp
qed

lemma fold_pair_update_length [simp]:
  "length (fold (\<lambda>q y. y[2 * q := f q, Suc (2 * q) := g q]) qs y) = length y"
  by (induction qs arbitrary: y) simp_all

lemma fold_pair_update_nth:
  "2 * b \<le> length y \<Longrightarrow> i < length y \<Longrightarrow>
   fold (\<lambda>q y. y[2 * q := f q, Suc (2 * q) := g q]) [a..<b] y ! i =
     (if 2 * a \<le> i \<and> i < 2 * b then (if even i then f (i div 2) else g (i div 2)) else y ! i)"
proof (induction b)
  case 0
  then show ?case by simp
next
  case (Suc b)
  let ?F = "fold (\<lambda>q y. y[2 * q := f q, Suc (2 * q) := g q]) [a..<b] y"
  have IH: "?F ! i =
     (if 2 * a \<le> i \<and> i < 2 * b then (if even i then f (i div 2) else g (i div 2)) else y ! i)"
    using Suc by simp
  show ?case
  proof (cases "a \<le> b")
    case False
    then show ?thesis by auto
  next
    case True
    have len: "length ?F = length y" by simp
    consider "i = 2 * b" | "i = 2 * b + 1" | "i < 2 * b" | "2 * b + 1 < i" by linarith
    then show ?thesis
    proof cases
      case 1
      then show ?thesis using True Suc.prems by (simp add: len)
    next
      case 2
      then show ?thesis using True Suc.prems by (simp add: len)
    next
      case 3
      then show ?thesis using True Suc.prems IH by (simp add: len)
    next
      case 4
      then show ?thesis using True Suc.prems IH by (simp add: len)
    qed
  qed
qed

lemma fold_update_length [simp]:
  "length (fold (\<lambda>q y. y[q := f q]) qs y) = length y"
  by (induction qs arbitrary: y) simp_all

lemma fold_update_nth:
  "i < length y \<Longrightarrow>
   fold (\<lambda>q y. y[q := f q]) [a..<b] y ! i = (if a \<le> i \<and> i < b then f i else y ! i)"
proof (induction b)
  case 0
  then show ?case by simp
next
  case (Suc b)
  show ?case
  proof (cases "a \<le> b")
    case False
    then show ?thesis by auto
  next
    case True
    show ?thesis
    proof (cases "i = b")
      case True
      then show ?thesis using \<open>a \<le> b\<close> Suc.prems by simp
    next
      case False
      then show ?thesis using \<open>a \<le> b\<close> Suc by auto
    qed
  qed
qed

lemma prolong_step_length [simp]: "length (fold (prolong_step v) qs y) = length y"
  by (induction qs arbitrary: y) (simp_all add: prolong_step_def)

lemma prolong_core:
  assumes mc: "2 \<le> mc" and len: "length v = mc + 1"
  shows "(fold (prolong_step v) [1..<mc - 1] ((replicate (2 * mc + 1) 0)[1 := 0.5 * v ! 1]))
           [2 * mc - 2 := v ! (mc - 1), 2 * mc - 1 := 0.5 * v ! (mc - 1)]
         = map (interp mc v) [0..<2 * mc + 1]"
    (is "?L = ?R")
proof (rule nth_equalityI)
  show "length ?L = length ?R" by simp
next
  fix i assume "i < length ?L"
  then have i: "i < 2 * mc + 1" by simp
  define y0 where "y0 = (replicate (2 * mc + 1) (0::real))[1 := 0.5 * v ! 1]"
  define F where "F = fold (prolong_step v) [1..<mc - 1] y0"
  have leny0: "length y0 = 2 * mc + 1" by (simp add: y0_def)
  have y0: "y0 ! i = (if i = 1 then 0.5 * v ! 1 else 0)"
    using i unfolding y0_def by (simp add: nth_list_update del: replicate_Suc)
  have F: "F ! i = (if 2 \<le> i \<and> i < 2 * (mc - 1)
                     then (if even i then v ! (i div 2) else 0.5 * (v ! (i div 2) + v ! (i div 2 + 1)))
                     else y0 ! i)"
    unfolding F_def prolong_step_def
    using fold_pair_update_nth[of "mc - 1" y0 i "\<lambda>q. v ! q" "\<lambda>q. 0.5 * (v ! q + v ! (q + 1))" 1]
      i mc leny0
    by simp
  have lenF: "length F = 2 * mc + 1" by (simp add: F_def leny0)
  have L: "?L ! i = (if i = 2 * mc - 1 then 0.5 * v ! (mc - 1)
                     else if i = 2 * mc - 2 then v ! (mc - 1) else F ! i)"
    using i lenF unfolding F_def[symmetric] y0_def[symmetric]
    by (simp add: nth_list_update)
  have R: "?R ! i = interp mc v i"
    using i by (simp add: nth_append del: upt_Suc)
  consider "i = 0" | "i = 1" | "2 \<le> i" "i < 2 * mc - 2" | "i = 2 * mc - 2" | "i = 2 * mc - 1" | "i = 2 * mc"
    using i by linarith
  then show "?L ! i = ?R ! i"
  proof cases
    case 1
    then have "i \<noteq> 2 * mc - 1" "i \<noteq> 2 * mc - 2" using mc by linarith+
    then show ?thesis unfolding L R F y0 using mc 1 by (simp add: interp_def zext_def)
  next
    case 2
    then have "i \<noteq> 2 * mc - 1" "i \<noteq> 2 * mc - 2" "1 \<noteq> mc" using mc by linarith+
    then show ?thesis unfolding L R F y0 using mc 2 by (simp add: interp_def zext_def)
  next
    case 3
    have "i div 2 \<noteq> 0" "i div 2 \<noteq> mc" "i div 2 + 1 \<noteq> mc" "i div 2 + 1 \<noteq> 0"
      using 3 by presburger+
    then have z: "zext mc v (i div 2) = v ! (i div 2)" "zext mc v (i div 2 + 1) = v ! (i div 2 + 1)"
      unfolding zext_def by simp_all
    have "i \<noteq> 2 * mc - 1" "i \<noteq> 2 * mc - 2" "i < 2 * (mc - 1)"
      using 3 by presburger+
    then show ?thesis unfolding L R F y0 interp_def z using 3 by simp
  next
    case 4
    then have e: "even i" "i div 2 = mc - 1" "i \<noteq> 2 * mc - 1" using mc by presburger+
    have "mc - 1 \<noteq> 0" "mc - 1 \<noteq> mc" using mc by linarith+
    then have z: "zext mc v (mc - 1) = v ! (mc - 1)" unfolding zext_def by simp
    show ?thesis unfolding L R interp_def using e z 4 by simp
  next
    case 5
    then have e: "odd i" "i div 2 = mc - 1" using mc by presburger+
    have "mc - 1 \<noteq> 0" "mc - 1 \<noteq> mc" "mc - 1 + 1 = mc" using mc by linarith+
    then have z: "zext mc v (mc - 1) = v ! (mc - 1)" "zext mc v (mc - 1 + 1) = 0"
      unfolding zext_def by simp_all
    show ?thesis unfolding L R interp_def using e z 5 by simp
  next
    case 6
    then have e: "i \<noteq> 2 * mc - 1" "i \<noteq> 2 * mc - 2" "\<not> i < 2 * (mc - 1)" "i \<noteq> 1"
      "i div 2 = mc" "even i"
      using mc by presburger+
    have z: "zext mc v mc = 0" unfolding zext_def by simp
    show ?thesis unfolding L R F y0 interp_def using e z by simp
  qed
qed

lemma two_le_power: "0 < k \<Longrightarrow> 2 \<le> (2::nat) ^ k"
  by (cases k) simp_all

lemma prolong_eq:
  assumes k: "0 < k" and len: "length v = 2 ^ k + 1"
  shows "prolong (MeshLevel1D k) v = Inr (map (interp (2 ^ k) v) [0..<2 * 2 ^ k + 1])"
proof -
  let ?mc = "(2::nat) ^ k"
  have mc: "2 \<le> ?mc" using k by (rule two_le_power)
  let ?y0 = "(replicate (2 * ?mc + 1) (0::real))[1 := 0.5 * v ! 1]"
  let ?body = "\<lambda>q (y::real list).
            and_then (getitem v q) (\<lambda>vq.
            and_then (setitem y (2 * q) vq) (\<lambda>y.
            and_then (getitem v q) (\<lambda>vq.
            and_then (getitem v (q + 1)) (\<lambda>vq1.
              setitem y (2 * q + 1) (0.5 * (vq + vq1))))))"
  have loop: "for_loop [1..<?mc - 1] ?body ?y0 = Inr (fold (prolong_step v) [1..<?mc - 1] ?y0)
        \<and> length (fold (prolong_step v) [1..<?mc - 1] ?y0) = 2 * ?mc + 1"
  proof (rule for_loop_fold[where I = "\<lambda>y. length y = 2 * ?mc + 1"])
    fix q and y :: "real list" assume "q \<in> set [1..<?mc - 1]" and "length y = 2 * ?mc + 1"
    then have "q < length v" "q + 1 < length v" "2 * q < length y" "2 * q + 1 < length y"
      using len by auto
    then show "?body q y = Inr (prolong_step v q y) \<and> length (prolong_step v q y) = 2 * ?mc + 1"
      using \<open>length y = 2 * ?mc + 1\<close> by (simp add: prolong_step_def)
  qed simp
  have "prolong (MeshLevel1D k) v =
     Inr ((fold (prolong_step v) [1..<?mc - 1] ?y0)
           [2 * ?mc - 2 := v ! (?mc - 1), 2 * ?mc - 1 := 0.5 * v ! (?mc - 1)])"
    using k len mc loop by (simp add: prolong_def MeshLevel1D_def zeros_def)
  then show ?thesis using prolong_core[OF mc len] by simp
qed

lemma getitem_neg_in [simp]:
  "0 < i \<Longrightarrow> i \<le> length xs \<Longrightarrow> getitem_neg xs i = Inr (xs ! (length xs - i))"
  by (simp add: getitem_neg_def)

lemma setitem_neg_in [simp]:
  "0 < i \<Longrightarrow> i \<le> length xs \<Longrightarrow> setitem_neg xs i x = Inr (xs[length xs - i := x])"
  by (simp add: setitem_neg_def)

lemma cP_eq:
  assumes j: "0 < j" and len: "length v = 2 ^ j + 1"
  shows "cP (MeshLevel1D_j j) v = Inr (map (interp (2 ^ j) v) [0..<2 * 2 ^ j + 1])"
proof -
  define mc :: nat where "mc = 2 ^ j"
  have mc: "2 \<le> mc" unfolding mc_def using j by (rule two_le_power)
  have lenv: "length v = mc + 1" using len by (simp add: mc_def)
  define y0 where "y0 = (replicate (2 * mc + 1) (0::real))[1 := 0.5 * v ! 1]"
  define F where "F = fold (prolong_step v) [1..<mc - 1] y0"
  have leny0: "length y0 = 2 * mc + 1" by (simp add: y0_def)
  have lenF: "length F = 2 * mc + 1" by (simp add: F_def leny0)
  let ?body = "\<lambda>q (y::real list).
            and_then (getitem v q) (\<lambda>vq.
            and_then (setitem y (2 * q) vq) (\<lambda>y.
            and_then (getitem v q) (\<lambda>vq.
            and_then (getitem v (q + 1)) (\<lambda>vq1.
              setitem y (2 * q + 1) (0.5 * (vq + vq1))))))"
  have "for_loop [1..<mc - 1] ?body y0 = Inr (fold (prolong_step v) [1..<mc - 1] y0)
        \<and> length (fold (prolong_step v) [1..<mc - 1] y0) = 2 * mc + 1"
  proof (rule for_loop_fold[where I = "\<lambda>y. length y = 2 * mc + 1"])
    fix q and y :: "real list" assume "q \<in> set [1..<mc - 1]" and "length y = 2 * mc + 1"
    then have "q < length v" "q + 1 < length v" "2 * q < length y" "2 * q + 1 < length y"
      using lenv by auto
    then show "?body q y = Inr (prolong_step v q y) \<and> length (prolong_step v q y) = 2 * mc + 1"
      using \<open>length y = 2 * mc + 1\<close> by (simp add: prolong_step_def)
  qed (simp add: leny0)
  moreover have "length v - 2 = mc - 1" using lenv by simp
  ultimately have loop: "for_loop [1..<length v - 2] ?body y0 = Inr F"
    by (simp add: F_def)
  have sel: "j_of (MeshLevel1D_j j) > 0"
    using j by (simp add: MeshLevel1D_j_def)
  have chk: "checklen (MeshLevel1D_j j) v True = Inr ()"
    using j lenv mc by (simp add: checklen_def MeshLevel1D_j_def mc_def)
  have g1: "getitem v 1 = Inr (v ! 1)" using lenv mc by simp
  have s1: "setitem (zeros_j (MeshLevel1D_j j)) 1 (0.5 * v ! 1) = Inr y0"
    using mc by (simp add: zeros_j_def MeshLevel1D_j_def y0_def mc_def del: replicate_Suc)
  have g2: "getitem_neg v 2 = Inr (v ! (mc - 1))" using lenv mc by simp
  have s2: "setitem_neg F 3 x = Inr (F[2 * mc - 2 := x])" for x
    using lenF mc by simp
  have s3: "setitem_neg (F[2 * mc - 2 := x]) 2 x' = Inr (F[2 * mc - 2 := x, 2 * mc - 1 := x'])" for x x'
    using lenF mc by simp
  have "cP (MeshLevel1D_j j) v =
     Inr (F[2 * mc - 2 := v ! (mc - 1), 2 * mc - 1 := 0.5 * v ! (mc - 1)])"
    unfolding cP_def
    by (simp only: sel chk g1 s1 loop g2 s2 s3 and_then_Inr not_True_eq_False if_False)
  then show ?thesis using prolong_core[OF mc lenv] by (simp add: F_def y0_def mc_def)
qed

lemma fold_update_eq_map:
  assumes "length y = n" and "\<And>i. i < n \<Longrightarrow> \<not> (a \<le> i \<and> i < b) \<Longrightarrow> y ! i = d"
  shows "fold (\<lambda>q y. y[q := f q]) [a..<b] y = map (\<lambda>q. if a \<le> q \<and> q < b then f q else d) [0..<n]"
proof (rule nth_equalityI)
  show "length (fold (\<lambda>q y. y[q := f q]) [a..<b] y) = length (map (\<lambda>q. if a \<le> q \<and> q < b then f q else d) [0..<n])"
    using assms(1) by simp
next
  fix i assume "i < length (fold (\<lambda>q y. y[q := f q]) [a..<b] y)"
  then have i: "i < n" using assms(1) by simp
  then show "fold (\<lambda>q y. y[q := f q]) [a..<b] y ! i = map (\<lambda>q. if a \<le> q \<and> q < b then f q else d) [0..<n] ! i"
    using assms by (simp add: fold_update_nth)
qed

lemma CR_eq:
  assumes k: "0 < k" and len: "length v = 2 ^ (k + 1) + 1"
  shows "CR (MeshLevel1D k) v =
    Inr (map (\<lambda>q. if 1 \<le> q \<and> q < 2 ^ k then weighted3 v q else 0) [0..<2 ^ k + 1])"
proof -
  define mc :: nat where "mc = 2 ^ k"
  have lenv: "length v = 2 * mc + 1" using len by (simp add: mc_def)
  let ?body = "\<lambda>q (y::real list).
            and_then (getitem v (2 * q - 1)) (\<lambda>a.
            and_then (getitem v (2 * q)) (\<lambda>b.
            and_then (getitem v (2 * q + 1)) (\<lambda>c.
              setitem y q (0.5 * a + b + 0.5 * c))))"
  have loop: "for_loop [1..<mc] ?body (replicate (mc + 1) 0)
       = Inr (fold (\<lambda>q y. y[q := weighted3 v q]) [1..<mc] (replicate (mc + 1) 0))
        \<and> length (fold (\<lambda>q y. y[q := weighted3 v q]) [1..<mc] (replicate (mc + 1) 0)) = mc + 1"
  proof (rule for_loop_fold[where I = "\<lambda>y. length y = mc + 1"])
    fix q and y :: "real list" assume "q \<in> set [1..<mc]" and "length y = mc + 1"
    then have "2 * q - 1 < length v" "2 * q < length v" "2 * q + 1 < length v" "q < length y"
      using lenv by auto
    then show "?body q y = Inr (y[q := weighted3 v q]) \<and> length (y[q := weighted3 v q]) = mc + 1"
      using \<open>length y = mc + 1\<close> by (simp add: weighted3_def)
  qed simp
  have "CR (MeshLevel1D k) v
        = Inr (fold (\<lambda>q y. y[q := weighted3 v q]) [1..<mc] (replicate (mc + 1) 0))"
    using k len loop by (simp add: CR_def MeshLevel1D_def mc_def del: replicate_Suc)
  also have "fold (\<lambda>q y. y[q := weighted3 v q]) [1..<mc] (replicate (mc + 1) 0)
     = map (\<lambda>q. if 1 \<le> q \<and> q < mc then weighted3 v q else 0) [0..<mc + 1]"
    by (rule fold_update_eq_map) (simp_all del: replicate_Suc)
  finally show ?thesis by (simp add: mc_def)
qed

lemma cR_eq:
  assumes j: "0 < j" and len: "length v = 2 ^ (j + 1) + 1"
  shows "cR (MeshLevel1D_j j) v =
    Inr (map (\<lambda>q. if 1 \<le> q \<and> q < 2 ^ j then weighted3 v q else 0) [0..<2 ^ j + 1])"
proof -
  define mc :: nat where "mc = 2 ^ j"
  have mc: "2 \<le> mc" unfolding mc_def using j by (rule two_le_power)
  have lenv: "length v = 2 * mc + 1" using len by (simp add: mc_def)
  let ?body = "\<lambda>q (y::real list).
            and_then (getitem v (2 * q - 1)) (\<lambda>a.
            and_then (getitem v (2 * q)) (\<lambda>b.
            and_then (getitem v (2 * q + 1)) (\<lambda>c.
              setitem y q (0.5 * a + b + 0.5 * c))))"
  have loop: "for_loop [1..<mc] ?body (replicate (mc + 1) 0)
       = Inr (fold (\<lambda>q y. y[q := weighted3 v q]) [1..<mc] (replicate (mc + 1) 0))
        \<and> length (fold (\<lambda>q y. y[q := weighted3 v q]) [1..<mc] (replicate (mc + 1) 0)) = mc + 1"
  proof (rule for_loop_fold[where I = "\<lambda>y. length y = mc + 1"])
    fix q and y :: "real list" assume "q \<in> set [1..<mc]" and "length y = mc + 1"
    then have "2 * q - 1 < length v" "2 * q < length v" "2 * q + 1 < length v" "q < length y"
      using lenv by auto
    then show "?body q y = Inr (y[q := weighted3 v q]) \<and> length (y[q := weighted3 v q]) = mc + 1"
      using \<open>length y = mc + 1\<close> by (simp add: weighted3_def)
  qed simp
  have chk: "checklen (MeshLevel1D_j j) v False = Inr ()"
    using len by (simp add: checklen_def MeshLevel1D_j_def)
  have a1: "mc - 1 + 1 = mc" "mc - 1 + 2 = mc + 1" using mc by simp_all
  have "cR (MeshLevel1D_j j) v
        = Inr (fold (\<lambda>q y. y[q := weighted3 v q]) [1..<mc] (replicate (mc + 1) 0))"
    using j loop chk a1 by (simp add: cR_def MeshLevel1D_j_def mc_def[symmetric] del: replicate_Suc)
  also have "fold (\<lambda>q y. y[q := weighted3 v q]) [1..<mc] (replicate (mc + 1) 0)
     = map (\<lambda>q. if 1 \<le> q \<and> q < mc then weighted3 v q else 0) [0..<mc + 1]"
    by (rule fold_update_eq_map) (simp_all del: replicate_Suc)
  finally show ?thesis by (simp add: mc_def)
qed

lemma take3_drop:
  "a + 2 < length v \<Longrightarrow> take 3 (drop a v) = [v ! a, v ! (a + 1), v ! (a + 2)]"
proof -
  assume a: "a + 2 < length v"
  have "drop a v = v ! a # drop (Suc a) v"
    by (rule Cons_nth_drop_Suc[symmetric]) (use a in simp)
  moreover have "drop (Suc a) v = v ! (Suc a) # drop (Suc (Suc a)) v"
    by (rule Cons_nth_drop_Suc[symmetric]) (use a in simp)
  moreover have "drop (Suc (Suc a)) v = v ! (Suc (Suc a)) # drop (Suc (Suc (Suc a))) v"
    by (rule Cons_nth_drop_Suc[symmetric]) (use a in simp)
  ultimately show ?thesis by (simp add: numeral_3_eq_3)
qed

lemma py_max_slice3:
  assumes "1 \<le> q" and "2 * q + 1 < length v"
  shows "py_max (slice v (2 * q - 1) (2 * q + 2)) = Inr (max3 v q)"
proof -
  have "2 * q + 2 - (2 * q - 1) = 3" using assms by simp
  moreover have "2 * q - 1 + 2 < length v" "2 * q - 1 + 1 = 2 * q" "2 * q - 1 + 2 = 2 * q + 1"
    using assms by simp_all
  ultimately have "slice v (2 * q - 1) (2 * q + 2) = [v ! (2 * q - 1), v ! (2 * q), v ! (2 * q + 1)]"
    unfolding slice_def using take3_drop[of "2 * q - 1" v] by simp
  then show ?thesis by (simp add: py_max_def max3_def max.commute max.left_commute)
qed

lemma py_max_first2:
  assumes "2 \<le> length v"
  shows "py_max (slice v 0 2) = Inr (max (v ! 0) (v ! 1))"
proof -
  obtain a b rest where "v = a # b # rest"
    using assms by (cases v; cases "tl v") auto
  then show ?thesis by (simp add: py_max_def slice_def max.commute)
qed

lemma py_max_last2:
  assumes "2 \<le> length v"
  shows "py_max (drop (length v - 2) v) = Inr (max (v ! (length v - 2)) (v ! (length v - 1)))"
proof -
  define n where "n = length v - 2"
  have n: "length v = n + 2" using assms by (simp add: n_def)
  have "drop n v = v ! n # drop (Suc n) v"
    by (rule Cons_nth_drop_Suc[symmetric]) (simp add: n)
  moreover have "drop (Suc n) v = v ! (Suc n) # drop (Suc (Suc n)) v"
    by (rule Cons_nth_drop_Suc[symmetric]) (simp add: n)
  moreover have "drop (Suc (Suc n)) v = []" using n by simp
  ultimately have "drop n v = [v ! n, v ! (n + 1)]" by simp
  moreover have "length v - 1 = n + 1" using n by simp
  ultimately show ?thesis unfolding n_def[symmetric] by (simp add: py_max_def max.commute)
qed

lemma mR_eq:
  assumes j: "0 < j" and len: "length v = 2 ^ (j + 1) + 1"
  shows "mR (MeshLevel1D_j j) v =
    Inr (map (\<lambda>q. if 1 \<le> q \<and> q < 2 ^ j then max3 v q else 0) [0..<2 ^ j + 1])"
proof -
  define mc :: nat where "mc = 2 ^ j"
  have mc: "2 \<le> mc" unfolding mc_def using j by (rule two_le_power)
  have lenv: "length v = 2 * mc + 1" using len by (simp add: mc_def)
  let ?body = "\<lambda>q (y::real list).
            and_then (py_max (slice v (2 * q - 1) (2 * q + 2))) (\<lambda>a. setitem y q a)"
  have loop: "for_loop [1..<mc] ?body (replicate (mc + 1) 0)
       = Inr (fold (\<lambda>q y. y[q := max3 v q]) [1..<mc] (replicate (mc + 1) 0))
        \<and> length (fold (\<lambda>q y. y[q := max3 v q]) [1..<mc] (replicate (mc + 1) 0)) = mc + 1"
  proof (rule for_loop_fold[where I = "\<lambda>y. length y = mc + 1"])
    fix q and y :: "real list" assume "q \<in> set [1..<mc]" and "length y = mc + 1"
    then have q: "1 \<le> q" "2 * q + 1 < length v" "q < length y"
      using lenv by auto
    have pm: "py_max (slice v (2 * q - 1) (2 * q + 2)) = Inr (max3 v q)"
      using q by (intro py_max_slice3)
    have st: "setitem y q (max3 v q) = Inr (y[q := max3 v q])"
      using q by simp
    show "?body q y = Inr (y[q := max3 v q]) \<and> length (y[q := max3 v q]) = mc + 1"
      using \<open>length y = mc + 1\<close> by (simp only: pm st and_then_Inr length_list_update simp_thms)
  qed simp
  have chk: "checklen (MeshLevel1D_j j) v False = Inr ()"
    using len by (simp add: checklen_def MeshLevel1D_j_def)
  have a1: "mc - 1 + 1 = mc" "mc - 1 + 2 = mc + 1" using mc by simp_all
  have "mR (MeshLevel1D_j j) v
        = Inr (fold (\<lambda>q y. y[q := max3 v q]) [1..<mc] (replicate (mc + 1) 0))"
    using j loop chk a1 by (simp add: mR_def MeshLevel1D_j_def mc_def[symmetric] del: replicate_Suc)
  also have "fold (\<lambda>q y. y[q := max3 v q]) [1..<mc] (replicate (mc + 1) 0)
     = map (\<lambda>q. if 1 \<le> q \<and> q < mc then max3 v q else 0) [0..<mc + 1]"
    by (rule fold_update_eq_map) (simp_all del: replicate_Suc)
  finally show ?thesis by (simp add: mc_def)
qed

lemma MR_eq:
  assumes k: "0 < k" and len: "length v = 2 ^ (k + 1) + 1"
  shows "MR (MeshLevel1D k) v =
    Inr (map (\<lambda>q. if q = 0 then max (v ! 0) (v ! 1)
                   else if q = 2 ^ k then max (v ! (2 ^ (k + 1) - 1)) (v ! (2 ^ (k + 1)))
                   else max3 v q) [0..<2 ^ k + 1])"
proof -
  define mc :: nat where "mc = 2 ^ k"
  have mc: "2 \<le> mc" unfolding mc_def using k by (rule two_le_power)
  have lenv: "length v = 2 * mc + 1" using len by (simp add: mc_def)
  define y0 where "y0 = (replicate (mc + 1) (0::real))[0 := max (v ! 0) (v ! 1)]"
  define F where "F = fold (\<lambda>q y. y[q := max3 v q]) [1..<mc] y0"
  have leny0: "length y0 = mc + 1" by (simp add: y0_def)
  have lenF: "length F = mc + 1" by (simp add: F_def leny0)
  let ?body = "\<lambda>q (y::real list).
            and_then (py_max (slice v (2 * q - 1) (2 * q + 2))) (\<lambda>a. setitem y q a)"
  have "for_loop [1..<mc] ?body y0
       = Inr (fold (\<lambda>q y. y[q := max3 v q]) [1..<mc] y0)
        \<and> length (fold (\<lambda>q y. y[q := max3 v q]) [1..<mc] y0) = mc + 1"
  proof (rule for_loop_fold[where I = "\<lambda>y. length y = mc + 1"])
    fix q and y :: "real list" assume "q \<in> set [1..<mc]" and "length y = mc + 1"
    then have q: "1 \<le> q" "2 * q + 1 < length v" "q < length y"
      using lenv by auto
    have pm: "py_max (slice v (2 * q - 1) (2 * q + 2)) = Inr (max3 v q)"
      using q by (intro py_max_slice3)
    have st: "setitem y q (max3 v q) = Inr (y[q := max3 v q])"
      using q by simp
    show "?body q y = Inr (y[q := max3 v q]) \<and> length (y[q := max3 v q]) = mc + 1"
      using \<open>length y = mc + 1\<close> by (simp only: pm st and_then_Inr length_list_update simp_thms)
  qed (simp add: leny0)
  moreover have "length y0 - 1 = mc" by (simp add: leny0)
  ultimately have loop: "for_loop [1..<length y0 - 1] ?body y0 = Inr F"
    by (simp add: F_def)
  have sel: "k_of (MeshLevel1D k) > 0" "(length v \<noteq> m_of (MeshLevel1D k) + 1) = False"
      "mcoarser_of (MeshLevel1D k) = Some mc"
    using k len by (simp_all add: MeshLevel1D_def mc_def)
  have p1: "py_max (slice v 0 2) = Inr (max (v ! 0) (v ! 1))"
    using lenv mc by (intro py_max_first2) simp
  have s1: "setitem (replicate (mc + 1) 0) 0 (max (v ! 0) (v ! 1)) = Inr y0"
    by (simp add: y0_def del: replicate_Suc)
  have p2: "py_max (drop (length v - 2) v) = Inr (max (v ! (2 * mc - 1)) (v ! (2 * mc)))"
    using py_max_last2[of v] lenv mc by simp
  have s2: "setitem_neg F 1 x = Inr (F[mc := x])" for x
    using lenF by simp
  have "MR (MeshLevel1D k) v = Inr (F[mc := max (v ! (2 * mc - 1)) (v ! (2 * mc))])"
    unfolding MR_def
    by (simp only: sel p1 s1 loop p2 s2 and_then_Inr not_True_eq_False if_False
        option.case simp_thms)
  also have "F[mc := max (v ! (2 * mc - 1)) (v ! (2 * mc))] =
      map (\<lambda>q. if q = 0 then max (v ! 0) (v ! 1)
                   else if q = mc then max (v ! (2 * mc - 1)) (v ! (2 * mc))
                   else max3 v q) [0..<mc + 1]"
  proof (rule nth_equalityI)
    show "length (F[mc := max (v ! (2 * mc - 1)) (v ! (2 * mc))]) =
      length (map (\<lambda>q. if q = 0 then max (v ! 0) (v ! 1)
                   else if q = mc then max (v ! (2 * mc - 1)) (v ! (2 * mc))
                   else max3 v q) [0..<mc + 1])"
      by (simp add: lenF)
  next
    fix i assume "i < length (F[mc := max (v ! (2 * mc - 1)) (v ! (2 * mc))])"
    then have i: "i < mc + 1" by (simp add: lenF)
    have Fi: "F ! i = (if 1 \<le> i \<and> i < mc then max3 v i else y0 ! i)"
      unfolding F_def using i by (simp add: fold_update_nth leny0)
    have y0i: "y0 ! i = (if i = 0 then max (v ! 0) (v ! 1) else 0)"
      unfolding y0_def using i by (simp add: nth_list_update del: replicate_Suc)
    have R: "map (\<lambda>q. if q = 0 then max (v ! 0) (v ! 1)
                   else if q = mc then max (v ! (2 * mc - 1)) (v ! (2 * mc))
                   else max3 v q) [0..<mc + 1] ! i = (if i = 0 then max (v ! 0) (v ! 1)
                   else if i = mc then max (v ! (2 * mc - 1)) (v ! (2 * mc))
                   else max3 v i)"
      using i by (simp add: nth_append del: upt_Suc)
    have L: "F[mc := max (v ! (2 * mc - 1)) (v ! (2 * mc))] ! i =
         (if i = mc then max (v ! (2 * mc - 1)) (v ! (2 * mc)) else F ! i)"
      using i lenF by (simp add: nth_list_update)
    show "F[mc := max (v ! (2 * mc - 1)) (v ! (2 * mc))] ! i =
      map (\<lambda>q. if q = 0 then max (v ! 0) (v ! 1)
                   else if q = mc then max (v ! (2 * mc - 1)) (v ! (2 * mc))
                   else max3 v q) [0..<mc + 1] ! i"
      unfolding L R Fi y0i using i mc by auto
  qed
  finally show ?thesis by (simp add: mc_def)
qed

lemma inner_sum:
  assumes "length xs = n" "length ys = n"
  shows "inner xs ys = (\<Sum>i<n. xs ! i * ys ! i)"
proof -
  have "inner xs ys = (\<Sum>i = 0..<length (map2 (*) xs ys). map2 (*) xs ys ! i)"
    unfolding inner_def by (rule sum_list_sum_nth)
  also have "\<dots> = (\<Sum>i = 0..<n. xs ! i * ys ! i)"
    using assms by (intro sum.cong) simp_all
  finally show ?thesis by (simp add: atLeast0LessThan)
qed

lemma adjoint_partial:
  fixes a z :: "nat \<Rightarrow> real"
  assumes z0: "z 0 = 0"
  shows "(\<Sum>i<2 * Suc n + 1. a i * (if even i then z (i div 2) else 0.5 * (z (i div 2) + z (i div 2 + 1))))
       = (\<Sum>q<Suc n. (if 1 \<le> q then 0.5 * a (2 * q - 1) + a (2 * q) + 0.5 * a (2 * q + 1) else 0) * z q)
         + (0.5 * a (2 * Suc n - 1) + a (2 * Suc n)) * z (Suc n)"
proof (induction n)
  case 0
  show ?case using z0 by (simp add: lessThan_Suc numeral_3_eq_3 numeral_2_eq_2 algebra_simps)
next
  case (Suc n)
  have "(\<Sum>i<2 * Suc (Suc n) + 1. a i * (if even i then z (i div 2) else 0.5 * (z (i div 2) + z (i div 2 + 1))))
     = (\<Sum>i<2 * Suc n + 1. a i * (if even i then z (i div 2) else 0.5 * (z (i div 2) + z (i div 2 + 1))))
       + a (2 * Suc n + 1) * (0.5 * (z (Suc n) + z (Suc (Suc n))))
       + a (2 * Suc n + 2) * z (Suc (Suc n))"
    by simp
  also have "\<dots> = (\<Sum>q<Suc n. (if 1 \<le> q then 0.5 * a (2 * q - 1) + a (2 * q) + 0.5 * a (2 * q + 1) else 0) * z q)
         + (0.5 * a (2 * Suc n - 1) + a (2 * Suc n)) * z (Suc n)
       + a (2 * Suc n + 1) * (0.5 * (z (Suc n) + z (Suc (Suc n))))
       + a (2 * Suc n + 2) * z (Suc (Suc n))"
    by (simp only: Suc.IH)
  also have "\<dots> = (\<Sum>q<Suc (Suc n). (if 1 \<le> q then 0.5 * a (2 * q - 1) + a (2 * q) + 0.5 * a (2 * q + 1) else 0) * z q)
         + (0.5 * a (2 * Suc (Suc n) - 1) + a (2 * Suc (Suc n))) * z (Suc (Suc n))"
    by (simp add: algebra_simps)
  finally show ?case .
qed

lemma adjoint_sum:
  fixes a z :: "nat \<Rightarrow> real"
  assumes z0: "z 0 = 0" and zn: "z mc = 0" and mc: "1 \<le> mc"
  shows "(\<Sum>i<2 * mc + 1. a i * (if even i then z (i div 2) else 0.5 * (z (i div 2) + z (i div 2 + 1))))
       = (\<Sum>q<mc + 1. (if 1 \<le> q \<and> q < mc then 0.5 * a (2 * q - 1) + a (2 * q) + 0.5 * a (2 * q + 1) else 0) * z q)"
proof -
  obtain n where n: "mc = Suc n" using mc by (cases mc) auto
  have "(\<Sum>q<mc + 1. (if 1 \<le> q \<and> q < mc then 0.5 * a (2 * q - 1) + a (2 * q) + 0.5 * a (2 * q + 1) else 0) * z q)
      = (\<Sum>q<mc. (if 1 \<le> q \<and> q < mc then 0.5 * a (2 * q - 1) + a (2 * q) + 0.5 * a (2 * q + 1) else 0) * z q)"
    by simp
  also have "\<dots> = (\<Sum>q<mc. (if 1 \<le> q then 0.5 * a (2 * q - 1) + a (2 * q) + 0.5 * a (2 * q + 1) else 0) * z q)"
    by (intro sum.cong) auto
  finally show ?thesis
    using adjoint_partial[where z = z and n = n and a = a] z0 zn unfolding n by simp
qed


section \<open>Monotone restriction\<close>

text \<open>
  Claim C4. On a level \<open>k > 0\<close>, for every fine vector \<open>v\<close> of the valid length and every
  coarse interior index \<open>q\<close>, the monotone restriction (\<^verbatim>\<open>MR\<close> of \<^verbatim>\<open>py/meshlevel.py\<close>
  and \<^verbatim>\<open>mR\<close> of \<^verbatim>\<open>py/1D/meshlevel.py\<close>) returns a vector whose entry \<open>q\<close> is
  \<open>max(v[2q-1], v[2q], v[2q+1])\<close>, and so is at least each of the three fine values.
\<close>

theorem monotone_restriction_is_max:
  assumes "0 < k" and "length v = 2 ^ (k + 1) + 1" and "0 < q" and "q < 2 ^ k"
  shows "\<exists>y z. MR (MeshLevel1D k) v = Inr y \<and> mR (MeshLevel1D_j k) v = Inr z
           \<and> y ! q = max (v ! (2 * q - 1)) (max (v ! (2 * q)) (v ! (2 * q + 1)))
           \<and> z ! q = max (v ! (2 * q - 1)) (max (v ! (2 * q)) (v ! (2 * q + 1)))
           \<and> v ! (2 * q - 1) \<le> y ! q \<and> v ! (2 * q) \<le> y ! q \<and> v ! (2 * q + 1) \<le> y ! q
           \<and> v ! (2 * q - 1) \<le> z ! q \<and> v ! (2 * q) \<le> z ! q \<and> v ! (2 * q + 1) \<le> z ! q"
proof -
  let ?y = "map (\<lambda>q. if q = 0 then max (v ! 0) (v ! 1)
                   else if q = 2 ^ k then max (v ! (2 ^ (k + 1) - 1)) (v ! (2 ^ (k + 1)))
                   else max3 v q) [0..<2 ^ k + 1]"
  let ?z = "map (\<lambda>q. if 1 \<le> q \<and> q < 2 ^ k then max3 v q else 0) [0..<2 ^ k + 1]"
  let ?M = "max (v ! (2 * q - 1)) (max (v ! (2 * q)) (v ! (2 * q + 1)))"
  have y: "?y ! q = ?M" and z: "?z ! q = ?M"
    using assms(3,4) by (simp_all add: nth_append max3_def del: upt_Suc)
  have Y: "MR (MeshLevel1D k) v = Inr ?y" using assms(1,2) by (rule MR_eq)
  have Z: "mR (MeshLevel1D_j k) v = Inr ?z" using assms(1,2) by (rule mR_eq)
  have bounds: "v ! (2 * q - 1) \<le> ?M" "v ! (2 * q) \<le> ?M" "v ! (2 * q + 1) \<le> ?M"
    by simp_all
  show ?thesis
    by (rule exI[of _ ?y], rule exI[of _ ?z]) (simp only: Y Z y z bounds simp_thms)
qed

text \<open>
  On level 1 and the fine vector \<open>[3, 1, 4, 1, 5]\<close>: the coarse interior entry is 4 in both
  files; \<^verbatim>\<open>MR\<close> also sets the two boundary entries, \<^verbatim>\<open>mR\<close> leaves them zero.
\<close>

theorem monotone_restriction_is_max_witness:
  "MR (MeshLevel1D 1) [3, 1, 4, 1, 5] = Inr [3, 4, 5]
   \<and> mR (MeshLevel1D_j 1) [3, 1, 4, 1, 5] = Inr [0, 4, 0]
   \<and> (\<exists>y z. MR (MeshLevel1D 1) [3, 1, 4, 1, 5] = Inr y
         \<and> mR (MeshLevel1D_j 1) [3, 1, 4, 1, 5] = Inr z \<and> y ! 1 = 4 \<and> z ! 1 = 4)"
proof -
  have "\<exists>y z. MR (MeshLevel1D 1) [3, 1, 4, 1, 5] = Inr y
         \<and> mR (MeshLevel1D_j 1) [3, 1, 4, 1, 5] = Inr z \<and> y ! 1 = 4 \<and> z ! 1 = 4"
    using monotone_restriction_is_max[of 1 "[3, 1, 4, 1, 5]" 1] by auto
  moreover have "MR (MeshLevel1D 1) [3, 1, 4, 1, 5] = Inr [3, 4, 5]" by code_simp
  moreover have "mR (MeshLevel1D_j 1) [3, 1, 4, 1, 5] = Inr [0, 4, 0]" by code_simp
  ultimately show ?thesis by blast
qed


section \<open>Prolongation\<close>

lemma interp_cong:
  assumes "\<forall>i. 0 < i \<and> i < mc \<longrightarrow> u ! i = v ! i" and "p < 2 * mc + 1"
  shows "interp mc u p = interp mc v p"
proof -
  have z: "zext mc u q = zext mc v q" if "q \<le> mc" for q
    using assms(1) that by (auto simp: zext_def)
  have "p div 2 \<le> mc" using assms(2) by linarith
  moreover have "p div 2 + 1 \<le> mc" if "odd p" using assms(2) that by presburger
  ultimately show ?thesis by (auto simp: interp_def z)
qed

text \<open>
  Claim C8. Prolongation never reads the boundary entries of its coarse input: on a level
  \<open>k > 0\<close>, two coarse vectors of the valid length that agree at every interior node
  \<open>0 < i < 2^k\<close> (whatever their entries at \<open>0\<close> and \<open>2^k\<close>) have the same image under
  \<^verbatim>\<open>prolong\<close> and under \<^verbatim>\<open>cP\<close>, and the fine vector returned has zero boundary
  entries.
\<close>

theorem prolong_ignores_boundary:
  assumes "0 < k" and "length u = 2 ^ k + 1" and "length v = 2 ^ k + 1"
    and "\<forall>i. 0 < i \<and> i < 2 ^ k \<longrightarrow> u ! i = v ! i"
  shows "prolong (MeshLevel1D k) u = prolong (MeshLevel1D k) v
       \<and> cP (MeshLevel1D_j k) u = cP (MeshLevel1D_j k) v
       \<and> (\<exists>y. prolong (MeshLevel1D k) u = Inr y \<and> cP (MeshLevel1D_j k) u = Inr y
              \<and> length y = 2 ^ (k + 1) + 1 \<and> y ! 0 = 0 \<and> y ! (2 ^ (k + 1)) = 0)"
proof -
  define y where "y = (\<lambda>w. map (interp (2 ^ k) w) [0..<2 * 2 ^ k + 1])"
  have same: "y u = y v"
    unfolding y_def
  proof (rule map_cong[OF refl])
    fix x assume "x \<in> set [0..<2 * 2 ^ k + 1]"
    then have "x < 2 * 2 ^ k + 1" by (simp del: upt_Suc)
    then show "interp (2 ^ k) u x = interp (2 ^ k) v x"
      by (rule interp_cong[OF assms(4)])
  qed
  have pu: "prolong (MeshLevel1D k) u = Inr (y u)"
    unfolding y_def using assms(1,2) by (rule prolong_eq)
  have pv: "prolong (MeshLevel1D k) v = Inr (y v)"
    unfolding y_def using assms(1,3) by (rule prolong_eq)
  have cu: "cP (MeshLevel1D_j k) u = Inr (y u)"
    unfolding y_def using assms(1,2) by (rule cP_eq)
  have cv: "cP (MeshLevel1D_j k) v = Inr (y v)"
    unfolding y_def using assms(1,3) by (rule cP_eq)
  have len: "length (y u) = 2 ^ (k + 1) + 1" by (simp add: y_def)
  have "y u ! 0 = interp (2 ^ k) u 0"
    unfolding y_def by (simp add: nth_append del: upt_Suc)
  then have b0: "y u ! 0 = 0"
    by (simp add: interp_def zext_def)
  have "y u ! (2 * 2 ^ k) = interp (2 ^ k) u (2 * 2 ^ k)"
    unfolding y_def by (simp add: nth_append del: upt_Suc)
  then have bm: "y u ! (2 ^ (k + 1)) = 0"
    by (simp add: interp_def zext_def)
  have "\<exists>w. prolong (MeshLevel1D k) u = Inr w \<and> cP (MeshLevel1D_j k) u = Inr w
              \<and> length w = 2 ^ (k + 1) + 1 \<and> w ! 0 = 0 \<and> w ! (2 ^ (k + 1)) = 0"
    using pu cu len b0 bm by blast
  moreover have "prolong (MeshLevel1D k) u = prolong (MeshLevel1D k) v"
    by (simp only: pu pv same)
  moreover have "cP (MeshLevel1D_j k) u = cP (MeshLevel1D_j k) v"
    by (simp only: cu cv same)
  ultimately show ?thesis by blast
qed

text \<open>
  On level 1 the coarse vectors \<open>[7, 2, 9]\<close> and \<open>[0, 2, 0]\<close> differ at both boundary
  nodes only, and both prolong to \<open>[0, 1, 2, 1, 0]\<close>.
\<close>

theorem prolong_ignores_boundary_witness:
  "prolong (MeshLevel1D 1) [7, 2, 9] = Inr [0, 1, 2, 1, 0]
   \<and> prolong (MeshLevel1D 1) [7, 2, 9] = prolong (MeshLevel1D 1) [0, 2, 0]
   \<and> cP (MeshLevel1D_j 1) [7, 2, 9] = cP (MeshLevel1D_j 1) [0, 2, 0]"
proof -
  have "\<forall>i. 0 < i \<and> i < 2 ^ 1 \<longrightarrow> [7, 2, 9 :: real] ! i = [0, 2, 0] ! i"
    by (auto simp: less_Suc_eq numeral_2_eq_2)
  then have "prolong (MeshLevel1D 1) [7, 2, 9] = prolong (MeshLevel1D 1) [0, 2, 0]
       \<and> cP (MeshLevel1D_j 1) [7, 2, 9] = cP (MeshLevel1D_j 1) [0, 2, 0]"
    using prolong_ignores_boundary[of 1 "[7, 2, 9]" "[0, 2, 0]"] by simp
  moreover have "prolong (MeshLevel1D 1) [7, 2, 9] = Inr [0, 1, 2, 1, 0]" by code_simp
  ultimately show ?thesis by blast
qed


section \<open>Adjointness of canonical restriction and prolongation\<close>

text \<open>
  Claim C3. For every level \<open>k > 0\<close>, every vector \<open>u\<close> on level \<open>k - 1\<close> and every
  functional \<open>v\<close> on level \<open>k\<close>, the canonical restriction (\<^verbatim>\<open>CR\<close>, \<^verbatim>\<open>cR\<close>) and the
  prolongation (\<^verbatim>\<open>prolong\<close>, \<^verbatim>\<open>cP\<close>) both return, and
  \<open>\<langle>CR(v), u\<rangle> = \<langle>v, prolong(u)\<rangle>\<close>. In exact arithmetic the two sides are equal, so
  the tolerance of the claim is met with zero error; rounding is outside this model.
\<close>

theorem transfer_adjoint:
  assumes "0 < k" and "length u = 2 ^ k + 1" and "length v = 2 ^ (k + 1) + 1"
  shows "\<exists>r p. CR (MeshLevel1D k) v = Inr r \<and> prolong (MeshLevel1D k) u = Inr p
            \<and> cR (MeshLevel1D_j k) v = Inr r \<and> cP (MeshLevel1D_j k) u = Inr p
            \<and> inner r u = inner v p"
proof -
  define mc :: nat where "mc = 2 ^ k"
  have mc: "1 \<le> mc" by (simp add: mc_def)
  define r where "r = map (\<lambda>q. if 1 \<le> q \<and> q < mc then weighted3 v q else 0) [0..<mc + 1]"
  define p where "p = map (interp mc u) [0..<2 * mc + 1]"
  have lenu: "length u = mc + 1" and lenv: "length v = 2 * mc + 1"
    using assms(2,3) by (simp_all add: mc_def)
  have R: "CR (MeshLevel1D k) v = Inr r" "cR (MeshLevel1D_j k) v = Inr r"
    using CR_eq[OF assms(1,3)] cR_eq[OF assms(1,3)] by (simp_all add: r_def mc_def)
  have P: "prolong (MeshLevel1D k) u = Inr p" "cP (MeshLevel1D_j k) u = Inr p"
    using prolong_eq[OF assms(1,2)] cP_eq[OF assms(1,2)] by (simp_all add: p_def mc_def)
  have "inner r u = (\<Sum>q<mc + 1. r ! q * u ! q)"
    by (rule inner_sum) (simp_all add: r_def lenu)
  also have "\<dots> = (\<Sum>q<mc + 1. (if 1 \<le> q \<and> q < mc then weighted3 v q else 0) * zext mc u q)"
  proof (rule sum.cong)
    fix q assume "q \<in> {..<mc + 1}"
    then have q: "q < mc + 1" by simp
    have "r ! q = (if 1 \<le> q \<and> q < mc then weighted3 v q else 0)"
      unfolding r_def using q by (simp add: nth_append del: upt_Suc)
    then show "r ! q * u ! q = (if 1 \<le> q \<and> q < mc then weighted3 v q else 0) * zext mc u q"
      by (simp add: zext_def)
  qed simp
  also have "\<dots> = (\<Sum>i<2 * mc + 1. v ! i * (if even i then zext mc u (i div 2)
                         else 0.5 * (zext mc u (i div 2) + zext mc u (i div 2 + 1))))"
    unfolding weighted3_def
    by (rule adjoint_sum[symmetric]) (use mc in \<open>simp_all add: zext_def\<close>)
  also have "\<dots> = (\<Sum>i<2 * mc + 1. v ! i * p ! i)"
  proof (rule sum.cong)
    fix i assume "i \<in> {..<2 * mc + 1}"
    then have i: "i < 2 * mc + 1" by simp
    have "p ! i = interp mc u i"
      unfolding p_def using i by (simp add: nth_append del: upt_Suc)
    then show "v ! i * (if even i then zext mc u (i div 2)
                         else 0.5 * (zext mc u (i div 2) + zext mc u (i div 2 + 1))) = v ! i * p ! i"
      by (simp add: interp_def)
  qed simp
  also have "\<dots> = inner v p"
    by (rule inner_sum[symmetric]) (simp_all add: p_def lenv)
  finally have "inner r u = inner v p" .
  with R P show ?thesis by blast
qed

text \<open>
  On level 1 with \<open>v = [1, 2, 3, 4, 5]\<close> and \<open>u = [7, 2, 9]\<close> both pairings are 12.
\<close>

theorem transfer_adjoint_witness:
  "CR (MeshLevel1D 1) [1, 2, 3, 4, 5] = Inr [0, 6, 0]
   \<and> prolong (MeshLevel1D 1) [7, 2, 9] = Inr [0, 1, 2, 1, 0]
   \<and> inner [0, 6, 0] [7, 2, 9] = 12 \<and> inner [1, 2, 3, 4, 5] [0, 1, 2, 1, 0] = 12
   \<and> (\<exists>r p. CR (MeshLevel1D 1) [1, 2, 3, 4, 5] = Inr r \<and> prolong (MeshLevel1D 1) [7, 2, 9] = Inr p
            \<and> cR (MeshLevel1D_j 1) [1, 2, 3, 4, 5] = Inr r \<and> cP (MeshLevel1D_j 1) [7, 2, 9] = Inr p
            \<and> inner r [7, 2, 9] = inner [1, 2, 3, 4, 5] p)"
proof -
  have "\<exists>r p. CR (MeshLevel1D 1) [1, 2, 3, 4, 5] = Inr r \<and> prolong (MeshLevel1D 1) [7, 2, 9] = Inr p
            \<and> cR (MeshLevel1D_j 1) [1, 2, 3, 4, 5] = Inr r \<and> cP (MeshLevel1D_j 1) [7, 2, 9] = Inr p
            \<and> inner r [7, 2, 9] = inner [1, 2, 3, 4, 5] p"
    using transfer_adjoint[of 1 "[7, 2, 9]" "[1, 2, 3, 4, 5]"] by simp
  moreover have "CR (MeshLevel1D 1) [1, 2, 3, 4, 5] = Inr [0, 6, 0]" by code_simp
  moreover have "prolong (MeshLevel1D 1) [7, 2, 9] = Inr [0, 1, 2, 1, 0]" by code_simp
  moreover have "inner [0, 6, 0] [7, 2, 9] = 12" by (simp add: inner_def)
  moreover have "inner [1, 2, 3, 4, 5] [0, 1, 2, 1, 0] = 12" by (simp add: inner_def)
  ultimately show ?thesis by blast
qed


section \<open>The trapezoid norm\<close>

lemma interior_squares:
  "sum_list (map (\<lambda>x. x * x) (butlast (tl v))) = (\<Sum>p = 1..<length v - 1. v ! p * v ! p)"
proof -
  have "butlast (tl v) = map (\<lambda>p. v ! p) [1..<length v - 1]"
  proof (rule nth_equalityI)
    show "length (butlast (tl v)) = length (map (\<lambda>p. v ! p) [1..<length v - 1])" by simp
  next
    fix i assume "i < length (butlast (tl v))"
    then have i: "i < length v - 2" by simp
    then have "butlast (tl v) ! i = v ! (i + 1)"
      by (simp add: nth_butlast nth_tl)
    moreover have "map (\<lambda>p. v ! p) [1..<length v - 1] ! i = v ! (i + 1)"
      using i by simp
    ultimately show "butlast (tl v) ! i = map (\<lambda>p. v ! p) [1..<length v - 1] ! i" by simp
  qed
  then have "sum_list (map (\<lambda>x. x * x) (butlast (tl v)))
     = sum_list (map (\<lambda>p. v ! p * v ! p) [1..<length v - 1])"
    by (simp add: comp_def)
  also have "\<dots> = (\<Sum>p = 1..<length v - 1. v ! p * v ! p)"
    by (simp add: interv_sum_list_conv_sum_set_nat)
  finally show ?thesis .
qed

lemma l2norm_any_length:
  assumes "v \<noteq> []"
  shows "l2norm self v =
     Inr (sqrt (h_of self * (0.5 * v ! 0 * v ! 0 + (\<Sum>p = 1..<length v - 1. v ! p * v ! p)
                              + 0.5 * v ! (length v - 1) * v ! (length v - 1))))"
proof -
  have "0 < length v" "Suc 0 \<le> length v" using assms by (cases v; simp)+
  then show ?thesis by (simp add: l2norm_def interior_squares)
qed

lemma l2norm_j_mismatch:
  assumes "length v \<noteq> mj_of self + 2"
  shows "l2norm_j self v =
     Inl (AssertionError (''input vector is of length '' @ fmt_d (length v)
                            @ '' (should be '' @ fmt_d (mj_of self + 2) @ '')''))"
  using assms by (simp add: l2norm_j_def checklen_def)

lemma l2norm_j_value:
  assumes "length v = mj_of self + 2"
  shows "l2norm_j self v =
     Inr (sqrt (hj_of self * (0.5 * v ! 0 * v ! 0 + (\<Sum>p = 1..<mj_of self + 1. v ! p * v ! p)
                               + 0.5 * v ! (mj_of self + 1) * v ! (mj_of self + 1))))"
  using assms by (simp add: l2norm_j_def checklen_def interior_squares)

text \<open>
  Claim C6. \<^verbatim>\<open>l2norm\<close> of \<^verbatim>\<open>py/1D/meshlevel.py\<close> calls \<^verbatim>\<open>checklen\<close> first and so
  does what the claim says (\<open>l2norm_j_mismatch\<close>, \<open>l2norm_j_value\<close>). \<^verbatim>\<open>l2norm\<close> of
  \<^verbatim>\<open>py/meshlevel.py\<close> has no length check, although every other method of that class
  that takes a vector asserts its length: on level 0, whose vectors have 3 entries, the
  2-entry vector \<open>[4, 0]\<close> is accepted and the value 2 is returned (\<open>l2norm_any_length\<close>
  gives the value for every nonempty vector), where the other file raises the assertion.
\<close>

theorem l2norm_unchecked_length:
  "l2norm (MeshLevel1D 0) [4, 0] = Inr 2
   \<and> l2norm_j (MeshLevel1D_j 0) [4, 0]
       = Inl (AssertionError ''input vector is of length 2 (should be 3)'')"
proof -
  have "l2norm (MeshLevel1D 0) [4, 0] = Inr (sqrt 4)"
    by (simp add: l2norm_def MeshLevel1D_def)
  moreover have "checklen (MeshLevel1D_j 0) [4, 0] False
       = Inl (AssertionError ''input vector is of length 2 (should be 3)'')"
    by code_simp
  then have "l2norm_j (MeshLevel1D_j 0) [4, 0]
       = Inl (AssertionError ''input vector is of length 2 (should be 3)'')"
    by (simp only: l2norm_j_def and_then_Inl)
  ultimately show ?thesis by simp
qed


section \<open>The residual and its length check\<close>

lemma residual_eq:
  assumes len: "length u = m_of self + 1"
  shows "residual self u f =
    Inr (map (\<lambda>p. if 1 \<le> p \<and> p < m_of self then stencil self u f p else 0) [0..<m_of self + 1])"
proof -
  define m where "m = m_of self"
  let ?body = "\<lambda>p (r::real list).
            let xpm = (real p - 0.5) * h_of self;
                xpp = (real p + 0.5) * h_of self
            in and_then (getitem u p) (\<lambda>up.
               and_then (getitem u (p - 1)) (\<lambda>um.
               and_then (getitem u (p + 1)) (\<lambda>ua.
                 setitem r p ((h_of self / 2) * (f xpm + f xpp)
                              - (1 / h_of self) * (2 * up - um - ua)))))"
  have loop: "for_loop [1..<m] ?body (replicate (m + 1) 0)
       = Inr (fold (\<lambda>p r. r[p := stencil self u f p]) [1..<m] (replicate (m + 1) 0))
        \<and> length (fold (\<lambda>p r. r[p := stencil self u f p]) [1..<m] (replicate (m + 1) 0)) = m + 1"
  proof (rule for_loop_fold[where I = "\<lambda>r. length r = m + 1"])
    fix p and r :: "real list" assume "p \<in> set [1..<m]" and "length r = m + 1"
    then have "p < length u" "p - 1 < length u" "p + 1 < length u" "p < length r"
      using len by (auto simp: m_def)
    then show "?body p r = Inr (r[p := stencil self u f p]) \<and> length (r[p := stencil self u f p]) = m + 1"
      using \<open>length r = m + 1\<close> by (simp add: stencil_def Let_def)
  qed simp
  have "residual self u f
        = Inr (fold (\<lambda>p r. r[p := stencil self u f p]) [1..<m] (replicate (m + 1) 0))"
    using len loop by (simp add: residual_def zeros_def m_def del: replicate_Suc)
  also have "fold (\<lambda>p r. r[p := stencil self u f p]) [1..<m] (replicate (m + 1) 0)
     = map (\<lambda>p. if 1 \<le> p \<and> p < m then stencil self u f p else 0) [0..<m + 1]"
    by (rule fold_update_eq_map) (simp_all del: replicate_Suc)
  finally show ?thesis by (simp add: m_def)
qed

text \<open>
  Claim C10. For every \<open>u\<close> with \<open>len(u) \<noteq> m + 1\<close> the call \<^verbatim>\<open>residual(u, f)\<close> of
  \<^verbatim>\<open>py/meshlevel.py\<close> fails, and the failure is the NameError for the unbound name
  \<open>v\<close> of the message expression, not the AssertionError with the formatted length
  message; the same wrong length given to \<^verbatim>\<open>CR\<close> on a level \<open>k > 0\<close> does raise the
  formatted AssertionError.
\<close>

theorem residual_length_check_raises_NameError:
  assumes "length u \<noteq> m_of self + 1"
  shows "residual self u f = Inl (NameError ''v'')
       \<and> residual self u f \<noteq> Inl (AssertionError (len_msg ''u'' (length u) (m_of self + 1)))
       \<and> (0 < k_of self \<longrightarrow>
            CR self u = Inl (AssertionError (len_msg ''v'' (length u) (m_of self + 1))))"
  using assms by (simp add: residual_def CR_def)

text \<open>On level 1 (5 nodes) with a 2-entry vector.\<close>

theorem residual_length_check_raises_NameError_witness:
  "residual (MeshLevel1D 1) [1, 2] (\<lambda>x. 0) = Inl (NameError ''v'')
   \<and> CR (MeshLevel1D 1) [1, 2]
       = Inl (AssertionError ''input vector v is of length 2 (should be 5)'')"
proof -
  have "length [1, 2 :: real] \<noteq> m_of (MeshLevel1D 1) + 1"
    by (simp add: MeshLevel1D_def)
  from residual_length_check_raises_NameError[OF this, of "\<lambda>x. 0"]
  have "residual (MeshLevel1D 1) [1, 2] (\<lambda>x. 0) = Inl (NameError ''v'')" by simp
  moreover have "CR (MeshLevel1D 1) [1, 2]
       = Inl (AssertionError ''input vector v is of length 2 (should be 5)'')"
    by code_simp
  ultimately show ?thesis by simp
qed


section \<open>The inactive residual\<close>

text \<open>
  Claim C7, amended. For \<open>u\<close> of the level's length and \<open>phi\<close> of the same length,
  \<^verbatim>\<open>inactiveresidual(u, f, phi)\<close> returns the residual with the entry replaced by
  \<open>max(r[p], 0)\<close> exactly at the nodes \<open>p\<close> with \<open>u[p] < phi[p] + 1e-10\<close>, and the entry of
  \<^verbatim>\<open>residual(u, f)\<close> unchanged at every other node. The test of the code is one-sided: a
  node below the obstacle is clamped at any distance from it. At a node where the iterate
  is feasible (\<open>phi[p] \<le> u[p]\<close>) the test is the same as \<open>|u[p] - phi[p]| < 1e-10\<close>, and
  for an iterate feasible at every node the result is the residual clamped at the nodes
  within the tolerance of the obstacle, as the specification words it.
\<close>

theorem inactiveresidual_clamps_active_nodes:
  assumes "length u = 2 ^ (k + 1) + 1" and "length phi = length u"
  shows "\<exists>r r'. residual (MeshLevel1D k) u f = Inr r
            \<and> inactiveresidual (MeshLevel1D k) u f phi = Inr r'
            \<and> length r = length u \<and> length r' = length u
            \<and> (\<forall>p<length u. r' ! p = (if u ! p < phi ! p + 1 / 10 ^ 10 then max (r ! p) 0 else r ! p))
            \<and> (\<forall>p<length u. phi ! p \<le> u ! p \<longrightarrow>
                   (u ! p < phi ! p + 1 / 10 ^ 10) = (\<bar>u ! p - phi ! p\<bar> < 1 / 10 ^ 10))
            \<and> ((\<forall>p<length u. phi ! p \<le> u ! p) \<longrightarrow> r' = spec_clamp_within_tolerance r u phi)"
proof -
  define self where "self = MeshLevel1D k"
  have len: "length u = m_of self + 1" using assms(1) by (simp add: self_def MeshLevel1D_def)
  define r where "r = map (\<lambda>p. if 1 \<le> p \<and> p < m_of self then stencil self u f p else 0) [0..<m_of self + 1]"
  have R: "residual self u f = Inr r" unfolding r_def using len by (rule residual_eq)
  have lenr: "length r = length u" by (simp add: r_def len)
  define r' where "r' = map (\<lambda>(ri, ui, pi). if ui < pi + osreps then max ri 0 else ri) (zip r (zip u phi))"
  have I: "inactiveresidual self u f phi = Inr r'"
    using assms(2) by (simp add: inactiveresidual_def R r'_def)
  have lenr': "length r' = length u" using lenr assms(2) by (simp add: r'_def)
  have pt: "r' ! p = (if u ! p < phi ! p + 1 / 10 ^ 10 then max (r ! p) 0 else r ! p)"
    if "p < length u" for p
    using that lenr assms(2) by (simp add: r'_def osreps_def)
  have eqv: "\<forall>p<length u. phi ! p \<le> u ! p \<longrightarrow>
                   (u ! p < phi ! p + 1 / 10 ^ 10) = (\<bar>u ! p - phi ! p\<bar> < 1 / 10 ^ 10)"
    by auto
  have sp: "(\<forall>p<length u. phi ! p \<le> u ! p) \<longrightarrow> r' = spec_clamp_within_tolerance r u phi"
  proof
    assume feas: "\<forall>p<length u. phi ! p \<le> u ! p"
    show "r' = spec_clamp_within_tolerance r u phi"
    proof (rule nth_equalityI)
      show "length r' = length (spec_clamp_within_tolerance r u phi)"
        using lenr assms(2) by (simp add: r'_def spec_clamp_within_tolerance_def)
    next
      fix p assume "p < length r'"
      then have p: "p < length u" using lenr' by simp
      have "phi ! p \<le> u ! p" using feas p by simp
      then have "(u ! p < phi ! p + osreps) = (\<bar>u ! p - phi ! p\<bar> < osreps)"
        by (auto simp: osreps_def)
      then show "r' ! p = spec_clamp_within_tolerance r u phi ! p"
        using p lenr assms(2) by (simp add: r'_def spec_clamp_within_tolerance_def)
    qed
  qed
  from R I lenr lenr' pt eqv sp show ?thesis unfolding self_def by blast
qed

text \<open>
  On level 0 with \<open>u = [0, 1, 0]\<close> and \<open>f = 0\<close> the residual is \<open>[0, -4, 0]\<close>. With the
  obstacle \<open>[0, 1, 0]\<close> the middle node is active and its entry is clamped to 0; with the
  obstacle \<open>[0, 0, 0]\<close> it is inactive and the entry stays \<open>-4\<close>. The iterate is
  feasible for the first obstacle, and clamping within the tolerance gives the same
  \<open>[0, 0, 0]\<close>.
\<close>

theorem inactiveresidual_clamps_active_nodes_witness:
  "residual (MeshLevel1D 0) [0, 1, 0] (\<lambda>x. 0) = Inr [0, - 4, 0]
   \<and> inactiveresidual (MeshLevel1D 0) [0, 1, 0] (\<lambda>x. 0) [0, 1, 0] = Inr [0, 0, 0]
   \<and> inactiveresidual (MeshLevel1D 0) [0, 1, 0] (\<lambda>x. 0) [0, 0, 0] = Inr [0, - 4, 0]
   \<and> (\<exists>r r'. residual (MeshLevel1D 0) [0, 1, 0] (\<lambda>x. 0) = Inr r
          \<and> inactiveresidual (MeshLevel1D 0) [0, 1, 0] (\<lambda>x. 0) [0, 1, 0] = Inr r'
          \<and> r' ! 1 = max (r ! 1) 0)
   \<and> spec_clamp_within_tolerance [0, - 4, 0] [0, 1, 0] [0, 1, 0] = [0, 0, 0]"
proof -
  have "\<exists>r r'. residual (MeshLevel1D 0) [0, 1, 0] (\<lambda>x. 0) = Inr r
          \<and> inactiveresidual (MeshLevel1D 0) [0, 1, 0] (\<lambda>x. 0) [0, 1, 0] = Inr r'
          \<and> r' ! 1 = max (r ! 1) 0"
    using inactiveresidual_clamps_active_nodes[of "[0, 1, 0]" 0 "[0, 1, 0]" "\<lambda>x. 0"]
    by fastforce
  moreover have "residual (MeshLevel1D 0) [0, 1, 0] (\<lambda>x. 0) = Inr [0, - 4, 0]"
    by code_simp
  moreover have "inactiveresidual (MeshLevel1D 0) [0, 1, 0] (\<lambda>x. 0) [0, 1, 0] = Inr [0, 0, 0]"
    by code_simp
  moreover have "inactiveresidual (MeshLevel1D 0) [0, 1, 0] (\<lambda>x. 0) [0, 0, 0] = Inr [0, - 4, 0]"
    by code_simp
  moreover have "spec_clamp_within_tolerance [0, - 4, 0] [0, 1, 0] [0, 1, 0] = [0, 0, 0]"
    by code_simp
  ultimately show ?thesis by blast
qed

text \<open>
  For an arbitrary iterate the two-sided reading fails. On level 0 with \<open>u = [0, -1, 0]\<close>,
  \<open>f = -100\<close> and the obstacle \<open>[0, 0, 0]\<close> the residual is \<open>[0, -46, 0]\<close>. The middle node
  is at distance 1 from the obstacle, so clamping within the tolerance leaves \<open>-46\<close>; the
  code clamps it to 0, because \<open>u[1] = -1 < 1e-10\<close>.
\<close>

theorem inactiveresidual_clamps_below_obstacle:
  "residual (MeshLevel1D 0) [0, - 1, 0] (\<lambda>x. - 100) = Inr [0, - 46, 0]
   \<and> inactiveresidual (MeshLevel1D 0) [0, - 1, 0] (\<lambda>x. - 100) [0, 0, 0] = Inr [0, 0, 0]
   \<and> spec_clamp_within_tolerance [0, - 46, 0] [0, - 1, 0] [0, 0, 0] = [0, - 46, 0]
   \<and> inactiveresidual (MeshLevel1D 0) [0, - 1, 0] (\<lambda>x. - 100) [0, 0, 0]
       \<noteq> Inr (spec_clamp_within_tolerance [0, - 46, 0] [0, - 1, 0] [0, 0, 0])"
proof -
  have a: "residual (MeshLevel1D 0) [0, - 1, 0] (\<lambda>x. - 100) = Inr [0, - 46, 0]"
    by code_simp
  have b: "inactiveresidual (MeshLevel1D 0) [0, - 1, 0] (\<lambda>x. - 100) [0, 0, 0] = Inr [0, 0, 0]"
    by code_simp
  have c: "spec_clamp_within_tolerance [0, - 46, 0] [0, - 1, 0] [0, 0, 0] = [0, - 46, 0]"
    by code_simp
  show ?thesis unfolding a b c by simp
qed

section \<open>The constraint-decomposition V-cycle: unfolding one level\<close>

lemma vcycle_bad_sweeps:
  assumes "kw_down kw < 1 \<or> kw_coarse kw < 1 \<or> kw_up kw < 0"
  shows "vcycle sm kw j hierarchy F = Inl (AssertionError [])"
  using assms by (subst vcycle.simps) auto

lemma vcycle_bad_length:
  assumes "j < length hierarchy" and "length F \<noteq> mj_of (mesh (hierarchy ! j)) + 2"
  shows "vcycle sm kw j hierarchy F = Inl (AssertionError [])"
  using assms by (subst vcycle.simps) simp

lemma vcycle_coarsest:
  assumes "kw_down kw \<ge> 1" "kw_coarse kw \<ge> 1" "kw_up kw \<ge> 0" "\<not> kw_view kw"
    and "0 < length hierarchy" and "chi (hierarchy ! 0) = Some c"
    and "length F = mj_of (mesh (hierarchy ! 0)) + 2"
    and "smoother sm (kw_coarse kw) (mesh (hierarchy ! 0)) (zeros_j (mesh (hierarchy ! 0))) F c True
           (kw_symmetric kw) (kw_printwarnings kw) = Inr r"
  shows "vcycle sm kw 0 hierarchy F = Inr (r, hierarchy)"
  using assms by (subst vcycle.simps) (simp add: report_def get_chi_def split: prod.splits)


section \<open>The FAS V-cycle\<close>

lemma ngssweep_Inr:
  assumes "ngssweep self k w ell fwd = Inr (w', s')"
  shows "s' = self\<lparr>sweep_log := sweep_log self @ [(k, fwd)]\<rparr>"
  using assms by (auto simp: ngssweep_def and_then_eq_Inr)

lemma ngssweeps_loop:
  assumes "for_loop qs (\<lambda>q (u, self). ngssweep self k u ell fwd) (u, self) = Inr (u', s')"
  shows "s' = self\<lparr>sweep_log := sweep_log self @ replicate (length qs) (k, fwd)\<rparr>"
  using assms
proof (induction qs arbitrary: u self)
  case Nil
  then show ?case by simp
next
  case (Cons q qs)
  from Cons.prems obtain u1 s1 where
    1: "ngssweep self k u ell fwd = Inr (u1, s1)" and
    2: "for_loop qs (\<lambda>q (u, self). ngssweep self k u ell fwd) (u1, s1) = Inr (u', s')"
    by (auto split: sum.splits)
  have s1: "s1 = self\<lparr>sweep_log := sweep_log self @ [(k, fwd)]\<rparr>"
    using 1 by (rule ngssweep_Inr)
  have "s' = s1\<lparr>sweep_log := sweep_log s1 @ replicate (length qs) (k, fwd)\<rparr>"
    using 2 by (rule Cons.IH)
  then show ?case by (simp add: s1 replicate_app_Cons_same)
qed

lemma ngssweeps_Inr:
  assumes "ngssweeps n self k u ell fwd = Inr (u', s')"
  shows "s' = self\<lparr>sweep_log := sweep_log self @ replicate (nat n) (k, fwd)\<rparr>"
  using ngssweeps_loop[of "[0..<nat n]" k ell fwd u self u' s'] assms
  by (simp add: ngssweeps_def)

lemma wu_iadd_Inr:
  assumes "wu_iadd self k n = Inr s'"
  shows "k < length (wu self) \<and> s' = self\<lparr>wu := (wu self)[k := wu self ! k + real_of_int n]\<rparr>"
  using assms by (auto simp: wu_iadd_def and_then_eq_Inr getitem_def setitem_def split: if_splits)

lemma coarsesolve_Inr:
  assumes "coarsesolve self u ell = Inr (u', s')"
  shows "\<exists>u1 s1. ngssweeps (coarse self) self (kcoarse self) u ell True = Inr (u1, s1)
           \<and> u' = u1 \<and> wu_iadd s1 (kcoarse self) (coarse self) = Inr s'"
proof -
  from assms obtain u1 s1 where
    1: "ngssweeps (coarse self) self (kcoarse self) u ell True = Inr (u1, s1)" and
    2: "wu_iadd s1 (kcoarse s1) (coarse s1) = Inr s'" and 3: "u' = u1"
    by (auto simp: coarsesolve_def and_then_eq_Inr)
  have "s1 = self\<lparr>sweep_log := sweep_log self @ replicate (nat (coarse self)) (kcoarse self, True)\<rparr>"
    using 1 by (rule ngssweeps_Inr)
  then have "kcoarse s1 = kcoarse self" "coarse s1 = coarse self" by simp_all
  with 1 2 3 show ?thesis by simp
qed

lemma FAS_vcycle_coarsest:
  "FAS_vcycle self (kcoarse self) u ell = coarsesolve self u ell"
  by (subst FAS_vcycle.simps) simp

lemma FAS_vcycle_below:
  "k < kcoarse self \<Longrightarrow> FAS_vcycle self k u ell = Inl (AssertionError [])"
  by (subst FAS_vcycle.simps) simp

lemma FAS_vcycle_unfold:
  assumes "kcoarse self < k" and "FAS_vcycle self k u ell = Inr (u', s')"
  shows "\<exists>u1 s1 s2 mk Fu rfine mk2 Ru mk3 cr mc FRu coarseell ucoarse s3 du mk4 Pdu u2 s4.
           ngssweeps (down self) self k u ell True = Inr (u1, s1)
         \<and> wu_iadd s1 k (down s1) = Inr s2
         \<and> getitem (meshes s2) k = Inr mk
         \<and> prob_F (prob s2) (fm_h mk) u1 = Inr Fu
         \<and> np_binop (-) ell Fu = Inr rfine
         \<and> getitem (meshes s2) k = Inr mk2
         \<and> fm_Rfw mk2 u1 = Inr Ru
         \<and> getitem (meshes s2) k = Inr mk3
         \<and> fm_CR mk3 rfine = Inr cr
         \<and> getitem (meshes s2) (k - 1) = Inr mc
         \<and> prob_F (prob s2) (fm_h mc) Ru = Inr FRu
         \<and> np_binop (+) cr FRu = Inr coarseell
         \<and> FAS_vcycle s2 (k - 1) Ru coarseell = Inr (ucoarse, s3)
         \<and> np_binop (-) ucoarse Ru = Inr du
         \<and> printupdatenorm s3 k du = Inr ()
         \<and> getitem (meshes s3) k = Inr mk4
         \<and> fm_P mk4 du = Inr Pdu
         \<and> np_iadd u1 Pdu = Inr u2
         \<and> ngssweeps (up s3) s3 k u2 ell False = Inr (u', s4)
         \<and> wu_iadd s4 k (up s4) = Inr s'"
  using assms(2)
  apply (subst (asm) FAS_vcycle.simps)
  using assms(1)
  apply (simp add: and_then_eq_Inr split: if_splits)
  done

lemma only_counters_refl [simp]: "only_counters s s"
  by (simp add: only_counters_def)

lemma only_counters_trans: "only_counters s t \<Longrightarrow> only_counters t r \<Longrightarrow> only_counters s r"
  unfolding only_counters_def by (cases s; cases t; cases r) auto

lemma only_counters_log [simp]: "only_counters s (s\<lparr>sweep_log := l\<rparr>)"
  by (simp add: only_counters_def)

lemma only_counters_wu [simp]: "only_counters s (s\<lparr>wu := w\<rparr>)"
  by (simp add: only_counters_def)

lemma only_counters_fields:
  assumes "only_counters s s'"
  shows "meshes s' = meshes s" "prob s' = prob s" "kcoarse s' = kcoarse s" "kfine s' = kfine s"
    "coarse s' = coarse s" "down s' = down s" "up s' = up s" "niters s' = niters s"
    "monitorupdate s' = monitorupdate s"
  using assms unfolding only_counters_def by (cases s; cases s'; auto)+

lemma sweeps_at_append:
  "sweeps_at (s\<lparr>sweep_log := sweep_log s @ replicate n (k, fwd)\<rparr>) j
     = sweeps_at s j + (if j = k then n else 0)"
  by (simp add: sweeps_at_def)

lemma sweeps_at_wu [simp]: "sweeps_at (s\<lparr>wu := w\<rparr>) j = sweeps_at s j"
  by (simp add: sweeps_at_def)

lemma sweep_then_count:
  assumes "ngssweeps n s k u ell fwd = Inr (u1, s1)" and "wu_iadd s1 k n = Inr s2"
  shows "only_counters s s2 \<and> length (wu s2) = length (wu s) \<and> k < length (wu s)
       \<and> (\<forall>j<length (wu s). wu s2 ! j = wu s ! j + (if j = k then real_of_int n else 0))
       \<and> (\<forall>j. sweeps_at s2 j = sweeps_at s j + (if j = k then nat n else 0))"
proof -
  have s1: "s1 = s\<lparr>sweep_log := sweep_log s @ replicate (nat n) (k, fwd)\<rparr>"
    using assms(1) by (rule ngssweeps_Inr)
  have s2: "k < length (wu s1)" "s2 = s1\<lparr>wu := (wu s1)[k := wu s1 ! k + real_of_int n]\<rparr>"
    using wu_iadd_Inr[OF assms(2)] by simp_all
  have "only_counters s s2"
    unfolding s2 s1 only_counters_def by simp
  moreover have "\<forall>j. sweeps_at s2 j = sweeps_at s j + (if j = k then nat n else 0)"
    unfolding s2 by (simp add: s1 sweeps_at_append)
  moreover have "\<forall>j<length (wu s). wu s2 ! j = wu s ! j + (if j = k then real_of_int n else 0)"
    using s2(1) unfolding s2 s1 by (simp add: nth_list_update)
  moreover have "length (wu s2) = length (wu s)" "k < length (wu s)"
    using s2(1) unfolding s2 s1 by simp_all
  ultimately show ?thesis by blast
qed

lemma gain_config:
  assumes "only_counters s t"
  shows "wu_gain t k j = wu_gain s k j" "sweep_gain t k j = sweep_gain s k j"
  using only_counters_fields[OF assms] by (simp_all add: wu_gain_def sweep_gain_def)

lemma ngssweeps_config:
  assumes "ngssweeps n s k u ell fwd = Inr (u1, s1)"
  shows "down s1 = down s" "up s1 = up s" "coarse s1 = coarse s" "kcoarse s1 = kcoarse s"
  using ngssweeps_Inr[OF assms] by simp_all

lemma FAS_vcycle_accounting:
  assumes "FAS_vcycle self k u ell = Inr (u', s')"
  shows "only_counters self s' \<and> length (wu s') = length (wu self)
       \<and> (\<forall>j<length (wu self). wu s' ! j = wu self ! j + wu_gain self k j)
       \<and> (\<forall>j. sweeps_at s' j = sweeps_at self j + sweep_gain self k j)"
  using assms
proof (induction k arbitrary: self u ell u' s' rule: less_induct)
  case (less k)
  consider "k = kcoarse self" | "k < kcoarse self" | "kcoarse self < k" by linarith
  then show ?case
  proof cases
    case 1
    with less.prems have "coarsesolve self u ell = Inr (u', s')"
      by (simp add: FAS_vcycle_coarsest)
    then obtain u1 s1 where
      a: "ngssweeps (coarse self) self (kcoarse self) u ell True = Inr (u1, s1)" and
      b: "wu_iadd s1 (kcoarse self) (coarse self) = Inr s'"
      using coarsesolve_Inr by blast
    from sweep_then_count[OF a b] show ?thesis
      using 1 by (simp add: wu_gain_def sweep_gain_def)
  next
    case 2
    with less.prems show ?thesis by (simp add: FAS_vcycle_below)
  next
    case 3
    from FAS_vcycle_unfold[OF 3 less.prems] obtain u1 s1 s2 Ru coarseell ucoarse s3 u2 s4 where
      a: "ngssweeps (down self) self k u ell True = Inr (u1, s1)" and
      b: "wu_iadd s1 k (down s1) = Inr s2" and
      c: "FAS_vcycle s2 (k - 1) Ru coarseell = Inr (ucoarse, s3)" and
      d: "ngssweeps (up s3) s3 k u2 ell False = Inr (u', s4)" and
      e: "wu_iadd s4 k (up s4) = Inr s'"
      by blast
    have b': "wu_iadd s1 k (down self) = Inr s2"
      using b ngssweeps_config(1)[OF a] by simp
    have e': "wu_iadd s4 k (up s3) = Inr s'"
      using e ngssweeps_config(2)[OF d] by simp
    note pre = sweep_then_count[OF a b']
    note post = sweep_then_count[OF d e']
    have "k - 1 < k" using 3 by simp
    note rec = less.IH[OF this c]
    have c12: "only_counters self s2" using pre by simp
    have c23: "only_counters s2 s3" using rec by simp
    have c13: "only_counters self s3" using c12 c23 by (rule only_counters_trans)
    have c3': "only_counters s3 s'" using post by simp
    have cfg: "only_counters self s'" using c13 c3' by (rule only_counters_trans)
    have up3: "up s3 = up self" and kc2: "kcoarse s2 = kcoarse self"
      using only_counters_fields[OF c13] only_counters_fields[OF c12] by simp_all
    have len: "length (wu s2) = length (wu self)" "length (wu s3) = length (wu self)"
      "length (wu s') = length (wu self)"
      using pre rec post by simp_all
    have wu: "wu s' ! j = wu self ! j + wu_gain self k j" if j: "j < length (wu self)" for j
    proof -
      have 1: "wu s2 ! j = wu self ! j + (if j = k then real_of_int (down self) else 0)"
        using pre j by simp
      have 2: "wu s3 ! j = wu s2 ! j + wu_gain self (k - 1) j"
        using rec j len gain_config(1)[OF c12] by simp
      have 3: "wu s' ! j = wu s3 ! j + (if j = k then real_of_int (up self) else 0)"
        using post j len up3 by simp
      show ?thesis
        unfolding 3 2 1 using \<open>kcoarse self < k\<close> by (auto simp: wu_gain_def)
    qed
    have sw: "sweeps_at s' j = sweeps_at self j + sweep_gain self k j" for j
    proof -
      have 1: "sweeps_at s2 j = sweeps_at self j + (if j = k then nat (down self) else 0)"
        using pre by simp
      have 2: "sweeps_at s3 j = sweeps_at s2 j + sweep_gain self (k - 1) j"
        using rec gain_config(2)[OF c12] by simp
      have 3: "sweeps_at s' j = sweeps_at s3 j + (if j = k then nat (up self) else 0)"
        using post up3 by simp
      show ?thesis
        unfolding 3 2 1 using \<open>kcoarse self < k\<close> by (auto simp: sweep_gain_def)
    qed
    from cfg len wu sw show ?thesis by blast
  qed
qed

lemma fold_add_sum:
  fixes a :: "nat \<Rightarrow> real"
  shows "fold (\<lambda>k tot. tot + a k) [0..<n] t = t + (\<Sum>k<n. a k)"
  by (induction n) simp_all

lemma wutotal_eq:
  assumes "length (wu self) = kfine self + 1"
  shows "wutotal self = Inr (\<Sum>k\<le>kfine self. wu self ! k * (1 / 2) ^ (kfine self - k))"
proof -
  define n where "n = kfine self"
  let ?body = "\<lambda>k (tot::real). and_then (getitem (wu self) (n - k)) (\<lambda>w. Inr (tot + w / 2 ^ k))"
  have "for_loop [0..<n + 1] ?body 0
        = Inr (fold (\<lambda>k tot. tot + wu self ! (n - k) / 2 ^ k) [0..<n + 1] 0) \<and> True"
  proof (rule for_loop_fold[where I = "\<lambda>_. True"])
    fix k and tot :: real assume "k \<in> set [0..<n + 1]" and True
    then have "n - k < length (wu self)" using assms by (simp add: n_def)
    then show "?body k tot = Inr (tot + wu self ! (n - k) / 2 ^ k) \<and> True" by simp
  qed simp
  then have "wutotal self = Inr (\<Sum>k<n + 1. wu self ! (n - k) / 2 ^ k)"
    unfolding wutotal_def n_def[symmetric] by (simp only: fold_add_sum) simp
  also have "(\<Sum>k<n + 1. wu self ! (n - k) / 2 ^ k)
           = (\<Sum>k<n + 1. wu self ! (n + 1 - Suc k) * (1 / 2) ^ (n - (n + 1 - Suc k)))"
    by (intro sum.cong) (simp_all add: power_divide)
  also have "\<dots> = (\<Sum>k<n + 1. wu self ! k * (1 / 2) ^ (n - k))"
    by (rule sum.nat_diff_reindex[of "\<lambda>k. wu self ! k * (1 / 2) ^ (n - k)" "n + 1"])
  also have "\<dots> = (\<Sum>k\<le>n. wu self ! k * (1 / 2) ^ (n - k))"
    by (simp add: lessThan_Suc_atMost)
  finally show ?thesis by (simp add: n_def)
qed

lemma sum_skip_prefix:
  fixes g :: "nat \<Rightarrow> real"
  assumes "kc \<le> kf" and "\<And>k. k < kc \<Longrightarrow> g k = 0"
  shows "(\<Sum>k\<le>kf. g k) = (\<Sum>i<kf - kc + 1. g (kc + i))"
proof -
  have "(\<Sum>k\<le>kf. g k) = (\<Sum>k\<in>{kc..kf}. g k)"
    by (rule sum.mono_neutral_right) (use assms in auto)
  also have "\<dots> = (\<Sum>k\<in>{0 + kc..(kf - kc) + kc}. g k)"
    using assms(1) by simp
  also have "\<dots> = (\<Sum>i\<in>{0..kf - kc}. g (i + kc))"
    by (rule sum.shift_bounds_cl_nat_ivl)
  also have "\<dots> = (\<Sum>i<kf - kc + 1. g (kc + i))"
    by (intro sum.cong) (auto simp: add.commute)
  finally show ?thesis .
qed

lemma example_run:
  "observe (FAS_vcycle example_FAS 1 [0, 0, 0, 0, 0] [0, 1, 1, 1, 0])
     = Inr ([0, 9 / 32, 1 / 2, 3 / 8, 0], [1, 1], [(1, True), (0, True)])"
  by code_simp

lemma observe_Inr:
  "observe r = Inr (u, w, l) \<Longrightarrow> \<exists>s. r = Inr (u, s) \<and> wu s = w \<and> sweep_log s = l"
  by (auto simp: observe_def split: sum.splits)

lemma ngssweeps_zero: "ngssweeps 0 s k u ell fwd = Inr (u, s)"
  by (simp add: ngssweeps_def)

lemma FAS_vcycle_steps:
  assumes "kcoarse self < k" and "FAS_vcycle self k u ell = Inr (u', s')"
  shows "\<exists>mk mc u1 s1 s2 Fu rfine Ru cr FRu coarseell ucoarse s3 du Pdu u2 s4.
           getitem (meshes self) k = Inr mk \<and> getitem (meshes self) (k - 1) = Inr mc
         \<and> ngssweeps (down self) self k u ell True = Inr (u1, s1)
         \<and> sweep_log s1 = sweep_log self @ replicate (nat (down self)) (k, True)
         \<and> wu_iadd s1 k (down self) = Inr s2
         \<and> prob_F (prob self) (fm_h mk) u1 = Inr Fu \<and> np_binop (-) ell Fu = Inr rfine
         \<and> fm_Rfw mk u1 = Inr Ru
         \<and> fm_CR mk rfine = Inr cr \<and> prob_F (prob self) (fm_h mc) Ru = Inr FRu
         \<and> np_binop (+) cr FRu = Inr coarseell
         \<and> FAS_vcycle s2 (k - 1) Ru coarseell = Inr (ucoarse, s3)
         \<and> np_binop (-) ucoarse Ru = Inr du \<and> fm_P mk du = Inr Pdu
         \<and> np_iadd u1 Pdu = Inr u2
         \<and> ngssweeps (up self) s3 k u2 ell False = Inr (u', s4)
         \<and> wu_iadd s4 k (up self) = Inr s'"
proof -
  from FAS_vcycle_unfold[OF assms] obtain
    u1 s1 s2 mk Fu rfine mk2 Ru mk3 cr mc FRu coarseell ucoarse s3 du mk4 Pdu u2 s4 where
      a: "ngssweeps (down self) self k u ell True = Inr (u1, s1)" and
      b: "wu_iadd s1 k (down s1) = Inr s2" and
      c: "getitem (meshes s2) k = Inr mk" and
      d: "prob_F (prob s2) (fm_h mk) u1 = Inr Fu" and
      e: "np_binop (-) ell Fu = Inr rfine" and
      f: "getitem (meshes s2) k = Inr mk2" "fm_Rfw mk2 u1 = Inr Ru" and
      g: "getitem (meshes s2) k = Inr mk3" "fm_CR mk3 rfine = Inr cr" and
      h: "getitem (meshes s2) (k - 1) = Inr mc" "prob_F (prob s2) (fm_h mc) Ru = Inr FRu" and
      i: "np_binop (+) cr FRu = Inr coarseell" and
      j: "FAS_vcycle s2 (k - 1) Ru coarseell = Inr (ucoarse, s3)" and
      l: "np_binop (-) ucoarse Ru = Inr du" and
      m: "getitem (meshes s3) k = Inr mk4" "fm_P mk4 du = Inr Pdu" and
      n: "np_iadd u1 Pdu = Inr u2" and
      o: "ngssweeps (up s3) s3 k u2 ell False = Inr (u', s4)" and
      p: "wu_iadd s4 k (up s4) = Inr s'"
    by blast
  have s1: "s1 = self\<lparr>sweep_log := sweep_log self @ replicate (nat (down self)) (k, True)\<rparr>"
    using a by (rule ngssweeps_Inr)
  have b': "wu_iadd s1 k (down self) = Inr s2" using b by (simp add: s1)
  have c12: "only_counters self s2" using sweep_then_count[OF a b'] by simp
  have c23: "only_counters s2 s3" using FAS_vcycle_accounting[OF j] by simp
  have c13: "only_counters self s3" using c12 c23 by (rule only_counters_trans)
  note f2 = only_counters_fields[OF c12]
  note f3 = only_counters_fields[OF c13]
  have mk: "mk2 = mk" "mk3 = mk" "mk4 = mk"
    using c f(1) g(1) m(1) f2(1) f3(1) by simp_all
  have p': "wu_iadd s4 k (up self) = Inr s'"
    using p ngssweeps_config(2)[OF o] f3(7) by simp
  have c': "getitem (meshes self) k = Inr mk" using c f2(1) by simp
  have h': "getitem (meshes self) (k - 1) = Inr mc" "prob_F (prob self) (fm_h mc) Ru = Inr FRu"
    using h f2(1,2) by simp_all
  have log1: "sweep_log s1 = sweep_log self @ replicate (nat (down self)) (k, True)"
    by (simp add: s1)
  have d': "prob_F (prob self) (fm_h mk) u1 = Inr Fu" using d f2(2) by simp
  have f': "fm_Rfw mk u1 = Inr Ru" using f(2) mk by simp
  have g': "fm_CR mk rfine = Inr cr" using g(2) mk by simp
  have m': "fm_P mk du = Inr Pdu" using m(2) mk by simp
  have o': "ngssweeps (up self) s3 k u2 ell False = Inr (u', s4)" using o f3(7) by simp
  note facts = c' h'(1) a log1 b' d' e f' g' h'(2) i j l m' n o' p'
  show ?thesis
    by (intro exI conjI) (rule facts)+
qed

lemma wu_after_cycle:
  assumes init: "FAS_init ms pr kc kf 1 1 0 n mon = Inr self"
    and run: "FAS_vcycle self kf u ell = Inr (u', s')"
  shows "(length (wu t) = kfine t + 1 \<longrightarrow>
            wutotal t = Inr (\<Sum>k\<le>kfine t. wu t ! k * (1 / 2) ^ (kfine t - k)))
       \<and> wutotal s' = Inr (\<Sum>k\<le>kf. wu s' ! k * (1 / 2) ^ (kf - k))
       \<and> (\<forall>k\<le>kf. wu s' ! k = real (sweeps_at s' k))
       \<and> (\<forall>k. kc \<le> k \<and> k \<le> kf \<longrightarrow> sweeps_at s' k = 1)
       \<and> wutotal s' = Inr (\<Sum>i<kf - kc + 1. (1 / 2) ^ (kf - kc + 1 - 1 - i) * real (sweeps_at s' (kc + i)))"
proof -
  have kc: "kc < kf" and self: "self = \<lparr> meshes = ms, prob = pr, kcoarse = kc, kfine = kf, coarse = 1,
        down = 1, up = 0, niters = n, monitorupdate = mon, wu = replicate (kf + 1) 0, sweep_log = [] \<rparr>"
    using init by (auto simp: FAS_init_def split: if_splits)
  note acc = FAS_vcycle_accounting[OF run]
  have cfg: "kfine s' = kf" using only_counters_fields(4)[of self s'] acc by (simp add: self)
  have len: "length (wu s') = kf + 1" using acc by (simp add: self)
  have wu: "wu s' ! j = (if kc \<le> j \<and> j \<le> kf then 1 else 0)" if "j \<le> kf" for j
  proof -
    have "wu s' ! j = wu self ! j + wu_gain self kf j"
      using acc that by (simp add: self)
    moreover have "wu self ! j = 0"
      using that by (simp add: self del: replicate_Suc)
    moreover have "kcoarse self = kc" "coarse self = 1" "down self = 1" "up self = 0"
      by (simp_all add: self)
    ultimately show ?thesis using that by (auto simp: wu_gain_def)
  qed
  have sw: "sweeps_at s' j = (if kc \<le> j \<and> j \<le> kf then 1 else 0)" for j
  proof -
    have "sweeps_at s' j = sweeps_at self j + sweep_gain self kf j"
      using acc by simp
    moreover have "sweeps_at self j = 0" by (simp add: self sweeps_at_def)
    moreover have "kcoarse self = kc" "coarse self = 1" "down self = 1" "up self = 0"
      by (simp_all add: self)
    ultimately show ?thesis using kc by (auto simp: sweep_gain_def)
  qed
  have tot: "wutotal s' = Inr (\<Sum>k\<le>kf. wu s' ! k * (1 / 2) ^ (kf - k))"
    using wutotal_eq[of s'] len cfg by simp
  have "(\<Sum>k\<le>kf. wu s' ! k * (1 / 2) ^ (kf - k))
      = (\<Sum>i<kf - kc + 1. wu s' ! (kc + i) * (1 / 2) ^ (kf - (kc + i)))"
    by (rule sum_skip_prefix) (use kc wu in auto)
  also have "\<dots> = (\<Sum>i<kf - kc + 1. (1 / 2) ^ (kf - kc + 1 - 1 - i) * real (sweeps_at s' (kc + i)))"
  proof (rule sum.cong)
    fix i assume "i \<in> {..<kf - kc + 1}"
    then have i: "kc + i \<le> kf" using kc by simp
    have "kf - (kc + i) = kf - kc + 1 - 1 - i" by simp
    then show "wu s' ! (kc + i) * (1 / 2) ^ (kf - (kc + i))
        = (1 / 2) ^ (kf - kc + 1 - 1 - i) * real (sweeps_at s' (kc + i))"
      using wu[OF i] sw[of "kc + i"] i by simp
  qed simp
  finally have tot2: "wutotal s' = Inr (\<Sum>i<kf - kc + 1. (1 / 2) ^ (kf - kc + 1 - 1 - i) * real (sweeps_at s' (kc + i)))"
    using tot by simp
  have a: "length (wu t) = kfine t + 1 \<longrightarrow>
            wutotal t = Inr (\<Sum>k\<le>kfine t. wu t ! k * (1 / 2) ^ (kfine t - k))"
    using wutotal_eq[of t] by simp
  have b: "\<forall>k\<le>kf. wu s' ! k = real (sweeps_at s' k)"
    using wu sw by simp
  have c: "\<forall>k. kc \<le> k \<and> k \<le> kf \<longrightarrow> sweeps_at s' k = 1"
    using sw by simp
  from a tot b c tot2 show ?thesis by blast
qed

section \<open>When the FAS V-cycle returns\<close>

lemma levels_ok_counters:
  assumes "levels_ok s n" and "only_counters s t" and "length (wu t) = length (wu s)"
  shows "levels_ok t n"
  using assms(1) only_counters_fields[OF assms(2)] assms(3)
  unfolding levels_ok_def by simp

lemma levels_ok_mesh:
  assumes "levels_ok s n" and "k \<le> kfine s"
  shows "getitem (meshes s) k = Inr (meshes s ! k)"
proof -
  have "k < length (meshes s)" using assms by (simp add: levels_ok_def)
  then show ?thesis by simp
qed

lemma levels_ok_wu:
  assumes "levels_ok s n" and "k \<le> kfine s"
  shows "k < length (wu s)"
  using assms by (simp add: levels_ok_def)

lemma for_loop_total:
  assumes "\<And>q s. q \<in> set qs \<Longrightarrow> I s \<Longrightarrow> \<exists>s'. body q s = Inr s' \<and> I s'" and "I s"
  shows "\<exists>s'. for_loop qs body s = Inr s' \<and> I s'"
  using assms
proof (induction qs arbitrary: s)
  case Nil
  then show ?case by simp
next
  case (Cons q qs)
  obtain s1 where s1: "body q s = Inr s1" "I s1"
    using Cons.prems(1)[of q s] Cons.prems(2) by auto
  have "\<exists>s'. for_loop qs body s1 = Inr s' \<and> I s'"
    by (rule Cons.IH) (use Cons.prems(1) s1(2) in auto)
  with s1 show ?case by simp
qed

lemma ngssweep_total:
  assumes ok: "levels_ok self n" and k: "k \<le> kfine self"
    and w: "length w = n k" and ell: "length ell = n k"
  shows "\<exists>w'. ngssweep self k w ell fwd
              = Inr (w', self\<lparr>sweep_log := sweep_log self @ [(k, fwd)]\<rparr>) \<and> length w' = n k"
proof -
  have mk: "getitem (meshes self) k = Inr (meshes self ! k)"
    using ok k by (rule levels_ok_mesh)
  let ?qs = "if fwd then [1..<fm_m (meshes self ! k)] else rev [1..<fm_m (meshes self ! k)]"
  let ?body = "\<lambda>p w. and_then (getitem (meshes self) k) (\<lambda>mk.
           prob_ngspoint (prob self) (fm_h mk) w ell p (niters self))"
  have "\<exists>w'. for_loop ?qs ?body w = Inr w' \<and> length w' = n k"
  proof (rule for_loop_total[where I = "\<lambda>w. length w = n k"])
    fix p and x :: "real list" assume "p \<in> set ?qs" and "length x = n k"
    then have "1 \<le> p \<and> p < fm_m (meshes self ! k)" by (auto split: if_splits)
    then show "\<exists>s'. ?body p x = Inr s' \<and> length s' = n k"
      using ok k ell \<open>length x = n k\<close> unfolding levels_ok_def by (simp add: mk)
  qed (rule w)
  then show ?thesis by (auto simp: ngssweep_def mk)
qed

lemma ngssweeps_total:
  assumes ok: "levels_ok self n" and k: "k \<le> kfine self"
    and u: "length u = n k" and ell: "length ell = n k"
  shows "\<exists>u'. ngssweeps c self k u ell fwd
              = Inr (u', self\<lparr>sweep_log := sweep_log self @ replicate (nat c) (k, fwd)\<rparr>)
            \<and> length u' = n k"
proof -
  let ?I = "\<lambda>(x, s). length x = n k \<and> levels_ok s n \<and> kfine s = kfine self"
  have "\<exists>r. for_loop [0..<nat c] (\<lambda>q (u, self). ngssweep self k u ell fwd) (u, self) = Inr r \<and> ?I r"
  proof (rule for_loop_total[where I = ?I])
    fix q and r :: "real list \<times> FAS" assume "?I r"
    then obtain x s where r: "r = (x, s)" and x: "length x = n k" and s: "levels_ok s n"
      and kf: "kfine s = kfine self"
      by (cases r) auto
    from ngssweep_total[OF s _ x ell, of fwd] k kf obtain x' where
      "ngssweep s k x ell fwd = Inr (x', s\<lparr>sweep_log := sweep_log s @ [(k, fwd)]\<rparr>)" "length x' = n k"
      by auto
    moreover have "levels_ok (s\<lparr>sweep_log := sweep_log s @ [(k, fwd)]\<rparr>) n"
      using s by (rule levels_ok_counters) simp_all
    ultimately show "\<exists>s'. (case r of (u, self) \<Rightarrow> ngssweep self k u ell fwd) = Inr s' \<and> ?I s'"
      using r kf by simp
  qed (use ok u in simp)
  then obtain u' s' where run: "ngssweeps c self k u ell fwd = Inr (u', s')" and "length u' = n k"
    by (auto simp: ngssweeps_def)
  with ngssweeps_Inr[OF run] show ?thesis by simp
qed

lemma wu_iadd_total:
  assumes "k < length (wu s)"
  shows "wu_iadd s k x = Inr (s\<lparr>wu := (wu s)[k := wu s ! k + real_of_int x]\<rparr>)"
  using assms by (simp add: wu_iadd_def)

lemma np_binop_same_length:
  "length xs = length ys \<Longrightarrow> np_binop f xs ys = Inr (map2 f xs ys)"
  by (simp add: np_binop_def)

lemma np_iadd_same_length:
  "length xs = length ys \<Longrightarrow> np_iadd xs ys = Inr (map2 (+) xs ys)"
  by (simp add: np_iadd_def)

lemma sweep_and_count_total:
  assumes ok: "levels_ok self n" and k: "k \<le> kfine self"
    and u: "length u = n k" and ell: "length ell = n k"
  shows "\<exists>u1 s1 s2. ngssweeps c self k u ell fwd = Inr (u1, s1) \<and> wu_iadd s1 k c = Inr s2
           \<and> length u1 = n k \<and> levels_ok s2 n \<and> only_counters self s2"
proof -
  from ngssweeps_total[OF ok k u ell, of c fwd] obtain u1 where
    a: "ngssweeps c self k u ell fwd
              = Inr (u1, self\<lparr>sweep_log := sweep_log self @ replicate (nat c) (k, fwd)\<rparr>)"
    and u1: "length u1 = n k" by blast
  define s1 where "s1 = self\<lparr>sweep_log := sweep_log self @ replicate (nat c) (k, fwd)\<rparr>"
  have "k < length (wu s1)" using ok k by (simp add: s1_def levels_ok_def)
  then have b: "wu_iadd s1 k c = Inr (s1\<lparr>wu := (wu s1)[k := wu s1 ! k + real_of_int c]\<rparr>)"
    by (rule wu_iadd_total)
  define s2 where "s2 = s1\<lparr>wu := (wu s1)[k := wu s1 ! k + real_of_int c]\<rparr>"
  have oc: "only_counters self s2" by (simp add: s2_def s1_def only_counters_def)
  have "levels_ok s2 n"
    using ok oc by (rule levels_ok_counters) (simp add: s2_def s1_def)
  with a b u1 oc show ?thesis unfolding s1_def[symmetric] s2_def[symmetric] by blast
qed

lemma FAS_vcycle_intro:
  assumes "kcoarse self < k"
    and "ngssweeps (down self) self k u ell True = Inr (u1, s1)"
    and "wu_iadd s1 k (down s1) = Inr s2"
    and "getitem (meshes s2) k = Inr mk"
    and "prob_F (prob s2) (fm_h mk) u1 = Inr Fu"
    and "np_binop (-) ell Fu = Inr rfine"
    and "fm_Rfw mk u1 = Inr Ru"
    and "fm_CR mk rfine = Inr cr"
    and "getitem (meshes s2) (k - 1) = Inr mc"
    and "prob_F (prob s2) (fm_h mc) Ru = Inr FRu"
    and "np_binop (+) cr FRu = Inr coarseell"
    and "FAS_vcycle s2 (k - 1) Ru coarseell = Inr (ucoarse, s3)"
    and "np_binop (-) ucoarse Ru = Inr du"
    and "printupdatenorm s3 k du = Inr ()"
    and "getitem (meshes s3) k = Inr mk'"
    and "fm_P mk' du = Inr Pdu"
    and "np_iadd u1 Pdu = Inr u2"
    and "ngssweeps (up s3) s3 k u2 ell False = Inr (u', s4)"
    and "wu_iadd s4 k (up s4) = Inr s'"
  shows "FAS_vcycle self k u ell = Inr (u', s')"
  using assms by (subst FAS_vcycle.simps) simp

lemma printupdatenorm_total:
  assumes "levels_ok s n" and "0 < k" and "k \<le> kfine s"
  shows "printupdatenorm s k du = Inr ()"
proof -
  have km: "k - 1 \<le> kfine s" using assms(3) by simp
  have "getitem (meshes s) (k - 1) = Inr (meshes s ! (k - 1))"
    using assms(1) km by (rule levels_ok_mesh)
  moreover have "\<exists>x. fm_l2norm (meshes s ! (k - 1)) du = Inr x"
    using assms(1) km unfolding levels_ok_def by blast
  ultimately show ?thesis by (auto simp: printupdatenorm_def)
qed

lemma FAS_vcycle_total:
  assumes "levels_ok self n" and "kcoarse self \<le> k" and "k \<le> kfine self"
    and "length u = n k" and "length ell = n k"
  shows "\<exists>u' s'. FAS_vcycle self k u ell = Inr (u', s') \<and> length u' = n k"
  using assms
proof (induction k arbitrary: self u ell rule: less_induct)
  case (less k)
  note ok = less.prems(1) and kf = less.prems(3) and u = less.prems(4) and ell = less.prems(5)
  show ?case
  proof (cases "k = kcoarse self")
    case True
    from sweep_and_count_total[OF ok kf u ell, of "coarse self" True] obtain u1 s1 s2 where
      a: "ngssweeps (coarse self) self k u ell True = Inr (u1, s1)" and
      b: "wu_iadd s1 k (coarse self) = Inr s2" and u1: "length u1 = n k"
      by blast
    have "kcoarse s1 = kcoarse self" "coarse s1 = coarse self"
      using ngssweeps_config[OF a] by simp_all
    then have "coarsesolve self u ell = Inr (u1, s2)"
      using a b True by (simp add: coarsesolve_def)
    then show ?thesis using True u1 by (simp add: FAS_vcycle_coarsest)
  next
    case False
    with less.prems(2) have kc: "kcoarse self < k" by simp
    then have k0: "0 < k" by simp
    from sweep_and_count_total[OF ok kf u ell, of "down self" True] obtain u1 s1 s2 where
      a: "ngssweeps (down self) self k u ell True = Inr (u1, s1)" and
      b: "wu_iadd s1 k (down self) = Inr s2" and u1: "length u1 = n k" and
      ok2: "levels_ok s2 n" and c2: "only_counters self s2"
      by blast
    have b': "wu_iadd s1 k (down s1) = Inr s2" using b ngssweeps_config(1)[OF a] by simp
    note f2 = only_counters_fields[OF c2]
    have kf2: "k \<le> kfine s2" using kf f2 by simp
    have km: "k - 1 \<le> kfine s2" using kf2 by simp
    have mk: "getitem (meshes s2) k = Inr (meshes s2 ! k)"
      using ok2 kf2 by (rule levels_ok_mesh)
    have mc: "getitem (meshes s2) (k - 1) = Inr (meshes s2 ! (k - 1))"
      using ok2 km by (rule levels_ok_mesh)
    obtain Fu where Fu: "prob_F (prob s2) (fm_h (meshes s2 ! k)) u1 = Inr Fu" "length Fu = n k"
      using ok2 kf2 u1 unfolding levels_ok_def by blast
    have rf: "np_binop (-) ell Fu = Inr (map2 (-) ell Fu)"
      using ell Fu(2) by (simp add: np_binop_same_length)
    obtain Ru where Ru: "fm_Rfw (meshes s2 ! k) u1 = Inr Ru" "length Ru = n (k - 1)"
      using ok2 kf2 u1 k0 unfolding levels_ok_def by blast
    obtain cr where cr: "fm_CR (meshes s2 ! k) (map2 (-) ell Fu) = Inr cr" "length cr = n (k - 1)"
    proof -
      have "length (map2 (-) ell Fu) = n k" using ell Fu(2) by simp
      then show ?thesis using that ok2 kf2 k0 unfolding levels_ok_def by blast
    qed
    obtain FRu where FRu: "prob_F (prob s2) (fm_h (meshes s2 ! (k - 1))) Ru = Inr FRu"
        "length FRu = n (k - 1)"
      using ok2 km Ru(2) unfolding levels_ok_def by blast
    have ce: "np_binop (+) cr FRu = Inr (map2 (+) cr FRu)"
      using cr(2) FRu(2) by (simp add: np_binop_same_length)
    have "k - 1 < k" using k0 by simp
    moreover have "kcoarse s2 \<le> k - 1" using kc f2 by simp
    moreover have "length (map2 (+) cr FRu) = n (k - 1)" using cr(2) FRu(2) by simp
    ultimately obtain ucoarse s3 where
      rec: "FAS_vcycle s2 (k - 1) Ru (map2 (+) cr FRu) = Inr (ucoarse, s3)" and
      uc: "length ucoarse = n (k - 1)"
      using less.IH[OF _ ok2 _ km Ru(2)] by blast
    have c23: "only_counters s2 s3" and len3: "length (wu s3) = length (wu s2)"
      using FAS_vcycle_accounting[OF rec] by simp_all
    have ok3: "levels_ok s3 n" using ok2 c23 len3 by (rule levels_ok_counters)
    note f3 = only_counters_fields[OF c23]
    have kf3: "k \<le> kfine s3" using kf2 f3 by simp
    have du: "np_binop (-) ucoarse Ru = Inr (map2 (-) ucoarse Ru)"
      using uc Ru(2) by (simp add: np_binop_same_length)
    have pu: "printupdatenorm s3 k (map2 (-) ucoarse Ru) = Inr ()"
      using ok3 k0 kf3 by (rule printupdatenorm_total)
    have mk3: "getitem (meshes s3) k = Inr (meshes s3 ! k)"
      using ok3 kf3 by (rule levels_ok_mesh)
    obtain Pdu where Pdu: "fm_P (meshes s3 ! k) (map2 (-) ucoarse Ru) = Inr Pdu" "length Pdu = n k"
    proof -
      have "length (map2 (-) ucoarse Ru) = n (k - 1)" using uc Ru(2) by simp
      then show ?thesis using that ok3 kf3 k0 unfolding levels_ok_def by blast
    qed
    have u2: "np_iadd u1 Pdu = Inr (map2 (+) u1 Pdu)"
      using u1 Pdu(2) by (simp add: np_iadd_same_length)
    have lu2: "length (map2 (+) u1 Pdu) = n k" using u1 Pdu(2) by simp
    from sweep_and_count_total[OF ok3 kf3 lu2 ell, of "up s3" False] obtain u' s4 s' where
      o: "ngssweeps (up s3) s3 k (map2 (+) u1 Pdu) ell False = Inr (u', s4)" and
      p: "wu_iadd s4 k (up s3) = Inr s'" and u': "length u' = n k"
      by blast
    have p': "wu_iadd s4 k (up s4) = Inr s'" using p ngssweeps_config(2)[OF o] by simp
    have "FAS_vcycle self k u ell = Inr (u', s')"
      by (rule FAS_vcycle_intro[OF kc a b' mk Fu(1) rf Ru(1) cr(1) mc FRu(1) ce rec du pu mk3 Pdu(1) u2 o p'])
    with u' show ?thesis by blast
  qed
qed

lemma VR0_level1:
  assumes "length u = 5"
  shows "\<exists>y. VR0 (MeshLevel1D 1) u = Inr y \<and> length y = 3"
proof -
  have "[1..<length (replicate (2 + 1) (0::real)) - 1] = [1]"
    by (simp add: upt_rec)
  then show ?thesis
    using assms by (simp add: VR0_def MeshLevel1D_def)
qed

lemma example_levels_ok: "levels_ok example_FAS (\<lambda>k. 2 ^ (k + 1) + 1)"
proof -
  have F: "\<exists>y. poisson_F h u = Inr y \<and> length y = length u" for h u
    by (simp add: poisson_F_def)
  have N: "\<exists>w'. poisson_ngspoint h w ell p c = Inr w' \<and> length w' = length w"
    if "length ell = length w" "1 \<le> p" "p + 1 < length w" for h w ell p c
    using that by (simp add: poisson_ngspoint_def)
  have m: "fm_m (example_mesh k) = 2 ^ (k + 1)" for k
    by (simp add: example_mesh_def MeshLevel1D_def)
  have R: "\<exists>y. fm_Rfw (example_mesh 1) u = Inr y \<and> length y = 3" if "length u = 5" for u
    using VR0_level1[OF that] by (simp add: example_mesh_def)
  have C: "\<exists>y. fm_CR (example_mesh 1) r = Inr y \<and> length y = 3" if "length r = 5" for r
    using CR_eq[of 1 r] that by (simp add: example_mesh_def)
  have P: "\<exists>y. fm_P (example_mesh 1) d = Inr y \<and> length y = 5" if "length d = 3" for d
    using prolong_eq[of 1 d] that by (simp add: example_mesh_def)
  have L: "\<exists>x. fm_l2norm (example_mesh k) d = Inr x" for k d
    by (simp add: example_mesh_def)
  have lv: "k = 0 \<or> k = 1" if "k \<le> kfine example_FAS" for k
    using that by (auto simp: example_FAS_def)
  have ms: "meshes example_FAS ! 0 = example_mesh 0" "meshes example_FAS ! 1 = example_mesh 1"
    "meshes example_FAS ! Suc 0 = example_mesh 1"
    "prob_F (prob example_FAS) = poisson_F" "prob_ngspoint (prob example_FAS) = poisson_ngspoint"
    by (simp_all add: example_FAS_def example_prob_def)
  show ?thesis
    unfolding levels_ok_def
  proof (intro conjI allI impI)
    show "kfine example_FAS < length (meshes example_FAS)"
      and "length (wu example_FAS) = kfine example_FAS + 1"
      by (simp_all add: example_FAS_def)
  next
    fix k and u :: "real list" assume "k \<le> kfine example_FAS" "length u = 2 ^ (k + 1) + 1"
    then show "\<exists>y. prob_F (prob example_FAS) (fm_h (meshes example_FAS ! k)) u = Inr y
                 \<and> length y = 2 ^ (k + 1) + 1"
      using F[of "fm_h (meshes example_FAS ! k)" u] by (simp add: ms)
  next
    fix k p and w ell :: "real list"
    assume k: "k \<le> kfine example_FAS"
      and h: "length w = 2 ^ (k + 1) + 1 \<and> length ell = 2 ^ (k + 1) + 1 \<and> 1 \<le> p
              \<and> p < fm_m (meshes example_FAS ! k)"
    have "fm_m (meshes example_FAS ! k) = 2 ^ (k + 1)"
      using lv[OF k] by (auto simp: ms m)
    then have "p < 2 ^ (k + 1)" using h by simp
    then show "\<exists>w'. prob_ngspoint (prob example_FAS) (fm_h (meshes example_FAS ! k)) w ell p
                      (niters example_FAS) = Inr w' \<and> length w' = 2 ^ (k + 1) + 1"
      using N[of ell w p "fm_h (meshes example_FAS ! k)" "niters example_FAS"] h by (simp add: ms)
  next
    fix k and d :: "real list" assume "k \<le> kfine example_FAS"
    from lv[OF this] show "\<exists>x. fm_l2norm (meshes example_FAS ! k) d = Inr x"
      using L by (auto simp: ms)
  next
    fix k and u :: "real list"
    assume "k \<le> kfine example_FAS" "0 < k" "length u = 2 ^ (k + 1) + 1"
    then have "k = 1" using lv[of k] by auto
    then have "k = 1" "length u = 5" using \<open>length u = _\<close> by simp_all
    then show "\<exists>y. fm_Rfw (meshes example_FAS ! k) u = Inr y \<and> length y = 2 ^ (k - 1 + 1) + 1"
      using R[of u] by (simp add: ms)
  next
    fix k and r :: "real list"
    assume "k \<le> kfine example_FAS" "0 < k" "length r = 2 ^ (k + 1) + 1"
    then have "k = 1" using lv[of k] by auto
    then have "k = 1" "length r = 5" using \<open>length r = _\<close> by simp_all
    then show "\<exists>y. fm_CR (meshes example_FAS ! k) r = Inr y \<and> length y = 2 ^ (k - 1 + 1) + 1"
      using C[of r] by (simp add: ms)
  next
    fix k and d :: "real list"
    assume "k \<le> kfine example_FAS" "0 < k" "length d = 2 ^ (k - 1 + 1) + 1"
    then have "k = 1" using lv[of k] by auto
    then have "k = 1" "length d = 3" using \<open>length d = _\<close> by simp_all
    then show "\<exists>y. fm_P (meshes example_FAS ! k) d = Inr y \<and> length y = 2 ^ (k + 1) + 1"
      using P[of d] by (simp add: ms)
  qed
qed


text \<open>
  Claim C1. A call \<^verbatim>\<open>vcycle(k, u, ell)\<close> with \<open>k > kcoarse\<close> returns whenever the
  collaborators are well formed (\<open>levels_ok\<close>), \<open>k \<le> kfine\<close> and \<open>u\<close>, \<open>ell\<close> have the
  length of level \<open>k\<close>. Every such call that returns has gone through these steps, each
  with the value the previous one produced: \<open>down\<close> forward sweeps on level \<open>k\<close> giving
  \<open>u1\<close>; the fine residual \<open>rfine = ell - F(h_k, u1)\<close>; the full-weighting restriction
  \<open>Ru = Rfw(u1)\<close>; the coarse right-hand side \<open>coarseell = CR(rfine) + F(h_(k-1), Ru)\<close>;
  the recursive call on level \<open>k - 1\<close> started from \<open>Ru\<close> and returning \<open>ucoarse\<close>; the
  correction \<open>u2 = u1 + P(ucoarse - Ru)\<close>; and the \<open>up\<close> backward sweeps on \<open>u2\<close>, whose
  result is the iterate returned. The collaborators are those of the engine
  (\<open>meshes self\<close>, \<open>prob self\<close>) at every step.
\<close>

theorem FAS_vcycle_coarse_correction:
  assumes "kcoarse self < k"
  shows "(levels_ok self n \<and> k \<le> kfine self \<and> length u = n k \<and> length ell = n k
            \<longrightarrow> (\<exists>u' s'. FAS_vcycle self k u ell = Inr (u', s')))
       \<and> (\<forall>u' s'. FAS_vcycle self k u ell = Inr (u', s') \<longrightarrow>
            (\<exists>mk mc u1 s1 s2 Fu rfine Ru cr FRu coarseell ucoarse s3 du Pdu u2 s4.
                getitem (meshes self) k = Inr mk \<and> getitem (meshes self) (k - 1) = Inr mc
              \<and> ngssweeps (down self) self k u ell True = Inr (u1, s1)
              \<and> sweep_log s1 = sweep_log self @ replicate (nat (down self)) (k, True)
              \<and> wu_iadd s1 k (down self) = Inr s2
              \<and> prob_F (prob self) (fm_h mk) u1 = Inr Fu \<and> np_binop (-) ell Fu = Inr rfine
              \<and> fm_Rfw mk u1 = Inr Ru
              \<and> fm_CR mk rfine = Inr cr \<and> prob_F (prob self) (fm_h mc) Ru = Inr FRu
              \<and> np_binop (+) cr FRu = Inr coarseell
              \<and> FAS_vcycle s2 (k - 1) Ru coarseell = Inr (ucoarse, s3)
              \<and> np_binop (-) ucoarse Ru = Inr du \<and> fm_P mk du = Inr Pdu
              \<and> np_iadd u1 Pdu = Inr u2
              \<and> ngssweeps (up self) s3 k u2 ell False = Inr (u', s4)
              \<and> wu_iadd s4 k (up self) = Inr s'))"
proof (intro conjI impI allI)
  assume h: "levels_ok self n \<and> k \<le> kfine self \<and> length u = n k \<and> length ell = n k"
  have "kcoarse self \<le> k" using assms by simp
  with h FAS_vcycle_total[of self n k u ell]
  show "\<exists>u' s'. FAS_vcycle self k u ell = Inr (u', s')" by blast
next
  fix u' s' assume "FAS_vcycle self k u ell = Inr (u', s')"
  with assms show "\<exists>mk mc u1 s1 s2 Fu rfine Ru cr FRu coarseell ucoarse s3 du Pdu u2 s4.
                getitem (meshes self) k = Inr mk \<and> getitem (meshes self) (k - 1) = Inr mc
              \<and> ngssweeps (down self) self k u ell True = Inr (u1, s1)
              \<and> sweep_log s1 = sweep_log self @ replicate (nat (down self)) (k, True)
              \<and> wu_iadd s1 k (down self) = Inr s2
              \<and> prob_F (prob self) (fm_h mk) u1 = Inr Fu \<and> np_binop (-) ell Fu = Inr rfine
              \<and> fm_Rfw mk u1 = Inr Ru
              \<and> fm_CR mk rfine = Inr cr \<and> prob_F (prob self) (fm_h mc) Ru = Inr FRu
              \<and> np_binop (+) cr FRu = Inr coarseell
              \<and> FAS_vcycle s2 (k - 1) Ru coarseell = Inr (ucoarse, s3)
              \<and> np_binop (-) ucoarse Ru = Inr du \<and> fm_P mk du = Inr Pdu
              \<and> np_iadd u1 Pdu = Inr u2
              \<and> ngssweeps (up self) s3 k u2 ell False = Inr (u', s4)
              \<and> wu_iadd s4 k (up self) = Inr s'"
    by (rule FAS_vcycle_steps)
qed

text \<open>
  The two-level instance with \<open>up = 0\<close>: its collaborators are well formed, the call
  returns, and the iterate returned is \<open>u1 + P(ucoarse - Ru)\<close>.
\<close>

theorem FAS_vcycle_coarse_correction_witness:
  "levels_ok example_FAS (\<lambda>k. 2 ^ (k + 1) + 1)
   \<and> observe (FAS_vcycle example_FAS 1 [0, 0, 0, 0, 0] [0, 1, 1, 1, 0])
       = Inr ([0, 9 / 32, 1 / 2, 3 / 8, 0], [1, 1], [(1, True), (0, True)])
   \<and> (\<exists>u' s'. FAS_vcycle example_FAS 1 [0, 0, 0, 0, 0] [0, 1, 1, 1, 0] = Inr (u', s'))
   \<and> (\<exists>u1 s1 Ru coarseell ucoarse s2 s3 du Pdu.
         ngssweeps 1 example_FAS 1 [0, 0, 0, 0, 0] [0, 1, 1, 1, 0] True = Inr (u1, s1)
       \<and> fm_Rfw (example_mesh 1) u1 = Inr Ru
       \<and> FAS_vcycle s2 0 Ru coarseell = Inr (ucoarse, s3)
       \<and> np_binop (-) ucoarse Ru = Inr du
       \<and> fm_P (example_mesh 1) du = Inr Pdu
       \<and> np_iadd u1 Pdu = Inr [0, 9 / 32, 1 / 2, 3 / 8, 0])"
proof -
  have kc: "kcoarse example_FAS < 1" and kf: "1 \<le> kfine example_FAS"
    by (simp_all add: example_FAS_def)
  note inst = FAS_vcycle_coarse_correction[OF kc, of "\<lambda>k. 2 ^ (k + 1) + 1"
      "[0, 0, 0, 0, 0]" "[0, 1, 1, 1, 0]"]
  have ret: "\<exists>u' s'. FAS_vcycle example_FAS 1 [0, 0, 0, 0, 0] [0, 1, 1, 1, 0] = Inr (u', s')"
    using inst example_levels_ok kf by simp
  obtain s' where run:
    "FAS_vcycle example_FAS 1 [0, 0, 0, 0, 0] [0, 1, 1, 1, 0] = Inr ([0, 9 / 32, 1 / 2, 3 / 8, 0], s')"
    using observe_Inr[OF example_run] by blast
  from inst run obtain mk u1 s1 s2 Ru coarseell ucoarse s3 du Pdu u2 s4 where
      mk: "getitem (meshes example_FAS) 1 = Inr mk" and
      a: "ngssweeps (down example_FAS) example_FAS 1 [0, 0, 0, 0, 0] [0, 1, 1, 1, 0] True = Inr (u1, s1)" and
      b: "fm_Rfw mk u1 = Inr Ru" and
      c: "FAS_vcycle s2 (1 - 1) Ru coarseell = Inr (ucoarse, s3)" and
      d: "np_binop (-) ucoarse Ru = Inr du" and
      e: "fm_P mk du = Inr Pdu" and
      f: "np_iadd u1 Pdu = Inr u2" and
      g: "ngssweeps (up example_FAS) s3 1 u2 [0, 1, 1, 1, 0] False = Inr ([0, 9 / 32, 1 / 2, 3 / 8, 0], s4)"
    by blast
  have "mk = example_mesh 1" using mk by (simp add: example_FAS_def)
  moreover have "down example_FAS = 1" "up example_FAS = 0" by (simp_all add: example_FAS_def)
  moreover have "u2 = [0, 9 / 32, 1 / 2, 3 / 8, 0]"
    using g \<open>up example_FAS = 0\<close> by (simp add: ngssweeps_zero)
  ultimately have "\<exists>u1 s1 Ru coarseell ucoarse s2 s3 du Pdu.
         ngssweeps 1 example_FAS 1 [0, 0, 0, 0, 0] [0, 1, 1, 1, 0] True = Inr (u1, s1)
       \<and> fm_Rfw (example_mesh 1) u1 = Inr Ru
       \<and> FAS_vcycle s2 0 Ru coarseell = Inr (ucoarse, s3)
       \<and> np_binop (-) ucoarse Ru = Inr du
       \<and> fm_P (example_mesh 1) du = Inr Pdu
       \<and> np_iadd u1 Pdu = Inr [0, 9 / 32, 1 / 2, 3 / 8, 0]"
    using a b c d e f by auto
  with example_levels_ok example_run ret show ?thesis by blast
qed

section \<open>Work units\<close>

text \<open>
  Claim C5. \<^verbatim>\<open>wutotal()\<close> returns \<open>\<Sum>k. wu[k] * 2^(-(kfine - k))\<close> over the levels
  \<open>k = 0..kfine\<close> (first conjunct, for any engine \<open>t\<close> whose \<open>wu\<close> has its \<open>kfine + 1\<close>
  entries). For a freshly constructed engine with \<open>coarse = 1\<close>, \<open>down = 1\<close>, \<open>up = 0\<close>,
  one V-cycle from the finest level returns when the collaborators are well formed and
  the vectors have the length of the finest level; and after any such V-cycle that
  returns, \<open>wu[k]\<close> is the number of sweeps done on level \<open>k\<close>, that number is 1 on every
  level of the hierarchy \<open>kcoarse..kfine\<close>, and with \<open>L = kfine - kcoarse + 1\<close> levels
  the total is \<open>\<Sum>i<L. 2^(-(L-1-i)) * sweeps\<close> of the \<open>i\<close>-th level.
\<close>

theorem work_unit_total:
  assumes init: "FAS_init ms pr kc kf 1 1 0 nit mon = Inr self"
  shows "(length (wu t) = kfine t + 1 \<longrightarrow>
            wutotal t = Inr (\<Sum>k\<le>kfine t. wu t ! k * (1 / 2) ^ (kfine t - k)))
       \<and> (levels_ok self n \<and> length u = n kf \<and> length ell = n kf
            \<longrightarrow> (\<exists>u' s'. FAS_vcycle self kf u ell = Inr (u', s')))
       \<and> (\<forall>u' s'. FAS_vcycle self kf u ell = Inr (u', s') \<longrightarrow>
              wutotal s' = Inr (\<Sum>k\<le>kf. wu s' ! k * (1 / 2) ^ (kf - k))
            \<and> (\<forall>k\<le>kf. wu s' ! k = real (sweeps_at s' k))
            \<and> (\<forall>k. kc \<le> k \<and> k \<le> kf \<longrightarrow> sweeps_at s' k = 1)
            \<and> wutotal s' = Inr (\<Sum>i<kf - kc + 1.
                                  (1 / 2) ^ (kf - kc + 1 - 1 - i) * real (sweeps_at s' (kc + i))))"
proof (intro conjI impI allI)
  assume "length (wu t) = kfine t + 1"
  then show "wutotal t = Inr (\<Sum>k\<le>kfine t. wu t ! k * (1 / 2) ^ (kfine t - k))"
    by (rule wutotal_eq)
next
  assume h: "levels_ok self n \<and> length u = n kf \<and> length ell = n kf"
  have "kcoarse self \<le> kf" "kf \<le> kfine self"
    using init by (auto simp: FAS_init_def split: if_splits)
  with h FAS_vcycle_total[of self n kf u ell]
  show "\<exists>u' s'. FAS_vcycle self kf u ell = Inr (u', s')" by blast
next
  fix u' s' assume run: "FAS_vcycle self kf u ell = Inr (u', s')"
  note r = wu_after_cycle[OF init run]
  show "wutotal s' = Inr (\<Sum>k\<le>kf. wu s' ! k * (1 / 2) ^ (kf - k))" using r by blast
  show "wutotal s' = Inr (\<Sum>i<kf - kc + 1.
                                  (1 / 2) ^ (kf - kc + 1 - 1 - i) * real (sweeps_at s' (kc + i)))"
    using r by blast
  fix k
  show "k \<le> kf \<Longrightarrow> wu s' ! k = real (sweeps_at s' k)" using r by blast
  show "kc \<le> k \<and> k \<le> kf \<Longrightarrow> sweeps_at s' k = 1" using r by blast
qed

text \<open>
  The two-level instance: one sweep on each level, \<open>wu = [1, 1]\<close>, total \<open>1/2 + 1 = 3/2\<close>.
\<close>

theorem work_unit_total_witness:
  "FAS_init [example_mesh 0, example_mesh 1] example_prob 0 1 1 1 0 2 False = Inr example_FAS
   \<and> levels_ok example_FAS (\<lambda>k. 2 ^ (k + 1) + 1)
   \<and> (\<exists>u' s'. FAS_vcycle example_FAS 1 [0, 0, 0, 0, 0] [0, 1, 1, 1, 0] = Inr (u', s')
         \<and> wu s' = [1, 1] \<and> sweeps_at s' 0 = 1 \<and> sweeps_at s' 1 = 1
         \<and> wutotal s' = Inr (3 / 2))"
proof -
  have init: "FAS_init [example_mesh 0, example_mesh 1] example_prob 0 1 1 1 0 2 False = Inr example_FAS"
    by (simp add: FAS_init_def example_FAS_def)
  note inst = work_unit_total[OF init, of _ "\<lambda>k. 2 ^ (k + 1) + 1" "[0, 0, 0, 0, 0]" "[0, 1, 1, 1, 0]"]
  have "\<exists>u' s'. FAS_vcycle example_FAS 1 [0, 0, 0, 0, 0] [0, 1, 1, 1, 0] = Inr (u', s')"
    using inst example_levels_ok by simp
  then obtain u' s' where run: "FAS_vcycle example_FAS 1 [0, 0, 0, 0, 0] [0, 1, 1, 1, 0] = Inr (u', s')"
    by blast
  have wu: "wu s' = [1, 1]"
    using observe_Inr[OF example_run] run by auto
  have sw: "sweeps_at s' 0 = 1" "sweeps_at s' 1 = 1"
    and tot: "wutotal s' = Inr (\<Sum>i<1 - 0 + 1. (1 / 2) ^ (1 - 0 + 1 - 1 - i) * real (sweeps_at s' (0 + i)))"
    using inst run by simp_all
  have "(\<Sum>i<1 - 0 + 1. (1 / 2) ^ (1 - 0 + 1 - 1 - i) * real (sweeps_at s' (0 + i))) = 3 / 2"
    using sw by (simp add: lessThan_Suc numeral_2_eq_2)
  with tot have "wutotal s' = Inr (3 / 2)" by simp
  with init example_levels_ok run wu sw show ?thesis by blast
qed

section \<open>The defect obstacle across the levels\<close>






section \<open>When the constraint-decomposition V-cycle returns\<close>










lemma pgs_fold_length [simp]: "length (fold (pgs_point msh F phi) qs v) = length v"
  by (induction qs arbitrary: v) (simp_all add: pgs_point_def)





section \<open>The assertions of the constraint-decomposition V-cycle\<close>

text \<open>
  Claim C9. \<^verbatim>\<open>vcycle\<close> raises its first assertion on every call with \<open>down < 1\<close>,
  \<open>coarse < 1\<close> or \<open>up < 0\<close>, and an assertion on every call whose \<open>F\<close> has not the
  length \<open>m + 2\<close> of the level \<open>j\<close> of the hierarchy; \<open>up = 0\<close> passes: on the coarsest
  level, with \<open>down \<ge> 1\<close>, \<open>coarse \<ge> 1\<close> and \<open>up = 0\<close>, the cycle returns what the coarse
  smoother returns.
\<close>

theorem vcycle_fails_fast:
  "(kw_down kw < 1 \<or> kw_coarse kw < 1 \<or> kw_up kw < 0
      \<longrightarrow> vcycle sm kw j hierarchy F = Inl (AssertionError []))
   \<and> (j < length hierarchy \<and> length F \<noteq> mj_of (mesh (hierarchy ! j)) + 2
      \<longrightarrow> vcycle sm kw j hierarchy F = Inl (AssertionError []))
   \<and> (1 \<le> kw_down kw \<and> 1 \<le> kw_coarse kw \<and> kw_up kw = 0 \<and> \<not> kw_view kw
       \<and> 0 < length hierarchy \<and> chi (hierarchy ! 0) = Some c
       \<and> length F = mj_of (mesh (hierarchy ! 0)) + 2
       \<and> smoother sm (kw_coarse kw) (mesh (hierarchy ! 0)) (zeros_j (mesh (hierarchy ! 0))) F c True
            (kw_symmetric kw) (kw_printwarnings kw) = Inr r
      \<longrightarrow> vcycle sm kw 0 hierarchy F = Inr (r, hierarchy))"
  using vcycle_bad_sweeps[of kw sm j hierarchy F] vcycle_bad_length[of j hierarchy F sm kw]
    vcycle_coarsest[of kw hierarchy c F sm r]
  by auto

text \<open>
  \<open>down = 0\<close>, \<open>coarse = 0\<close> and a right-hand side of the wrong length are refused; the
  default arguments (\<open>up = 0\<close>) on a one-level hierarchy are accepted.
\<close>

theorem vcycle_fails_fast_witness:
  "vcycle example_smoother (default_kw\<lparr>kw_down := 0\<rparr>) 1 example_hierarchy [0, - 1, - 1, - 1, 0]
     = Inl (AssertionError [])
   \<and> vcycle example_smoother (default_kw\<lparr>kw_coarse := 0\<rparr>) 1 example_hierarchy [0, - 1, - 1, - 1, 0]
     = Inl (AssertionError [])
   \<and> vcycle example_smoother default_kw 1 example_hierarchy [0, - 1, 0]
     = Inl (AssertionError [])
   \<and> vcycle example_smoother default_kw 0 [\<lparr> mesh = MeshLevel1D_j 0, chi = Some [0, - 1, 0] \<rparr>] [0, - 4, 0]
     = Inr (([0, - 1, 0], 0), [\<lparr> mesh = MeshLevel1D_j 0, chi = Some [0, - 1, 0] \<rparr>])"
proof -
  have 1: "vcycle example_smoother (default_kw\<lparr>kw_down := 0\<rparr>) 1 example_hierarchy [0, - 1, - 1, - 1, 0]
     = Inl (AssertionError [])"
    using vcycle_fails_fast[of "default_kw\<lparr>kw_down := 0\<rparr>" example_smoother 1 example_hierarchy
        "[0, - 1, - 1, - 1, 0]"]
    by (simp add: default_kw_def)
  have 2: "vcycle example_smoother (default_kw\<lparr>kw_coarse := 0\<rparr>) 1 example_hierarchy [0, - 1, - 1, - 1, 0]
     = Inl (AssertionError [])"
    using vcycle_fails_fast[of "default_kw\<lparr>kw_coarse := 0\<rparr>" example_smoother 1 example_hierarchy
        "[0, - 1, - 1, - 1, 0]"]
    by (simp add: default_kw_def)
  have 3: "vcycle example_smoother default_kw 1 example_hierarchy [0, - 1, 0]
     = Inl (AssertionError [])"
    using vcycle_fails_fast[of default_kw example_smoother 1 example_hierarchy "[0, - 1, 0]"]
    by (simp add: example_hierarchy_def MeshLevel1D_j_def)
  have s: "smoother example_smoother 1 (MeshLevel1D_j 0) (zeros_j (MeshLevel1D_j 0)) [0, - 4, 0]
             [0, - 1, 0] True False False = Inr ([0, - 1, 0], 0)"
    by code_simp
  have 4: "vcycle example_smoother default_kw 0 [\<lparr> mesh = MeshLevel1D_j 0, chi = Some [0, - 1, 0] \<rparr>] [0, - 4, 0]
     = Inr (([0, - 1, 0], 0), [\<lparr> mesh = MeshLevel1D_j 0, chi = Some [0, - 1, 0] \<rparr>])"
    using vcycle_fails_fast[of default_kw example_smoother 0
        "[\<lparr> mesh = MeshLevel1D_j 0, chi = Some [0, - 1, 0] \<rparr>]" "[0, - 4, 0]" "[0, - 1, 0]"
        "([0, - 1, 0], 0)"] s
    by (simp add: default_kw_def MeshLevel1D_j_def)
  from 1 2 3 4 show ?thesis by blast
qed

end
